theory Spec2Isabelle
  imports Main "HOL-Library.Word"
begin

unbundle bit_operations_syntax

section \<open>Buffers, JavaScript numbers and strings\<close>

text \<open>
  The PIV engine lives in \<^verbatim>\<open>src/main/yubikey-pcsc.ts\<close>. A Node \<^verbatim>\<open>Buffer\<close> is a list of
  bytes. A JavaScript number that is used as an offset or a length is an integer or
  \<^verbatim>\<open>NaN\<close>; \<^verbatim>\<open>undefined\<close> (the value of an out-of-range read) becomes \<^verbatim>\<open>NaN\<close> as soon
  as it is added to an offset, which is the only thing the code does with an undefined
  length, so both are \<open>None\<close> here.
\<close>

type_synonym byte = "8 word"
type_synonym buffer = "byte list"
type_synonym num = "int option"

text \<open>\<^verbatim>\<open>buf[i]\<close>: \<^verbatim>\<open>undefined\<close> outside the buffer and at a \<^verbatim>\<open>NaN\<close> index.\<close>

definition byteAt :: "buffer \<Rightarrow> num \<Rightarrow> byte option" where
  "byteAt buf i =
     (case i of
        None \<Rightarrow> None
      | Some k \<Rightarrow> if 0 \<le> k \<and> k < int (length buf) then Some (buf ! nat k) else None)"

definition addNum :: "num \<Rightarrow> num \<Rightarrow> num" where
  "addNum a b = (case a of None \<Rightarrow> None | Some x \<Rightarrow> (case b of None \<Rightarrow> None | Some y \<Rightarrow> Some (x + y)))"

text \<open>
  Node's \<^verbatim>\<open>adjustOffset\<close> (lib/buffer.js), which \<^verbatim>\<open>Buffer.prototype.slice\<close> applies to both
  of its arguments: \<^verbatim>\<open>NaN\<close> is 0, a negative offset counts from the end, everything is
  clamped to the buffer.
\<close>

definition adjustOffset :: "num \<Rightarrow> nat \<Rightarrow> nat" where
  "adjustOffset off len =
     (case off of
        None \<Rightarrow> 0
      | Some i \<Rightarrow>
          if i < 0 then (if i + int len > 0 then nat (i + int len) else 0)
          else if i < int len then nat i
          else len)"

text \<open>\<^verbatim>\<open>buf.slice(start, end)\<close> and \<^verbatim>\<open>buf.slice(start)\<close>.\<close>

definition slice :: "buffer \<Rightarrow> num \<Rightarrow> num \<Rightarrow> buffer" where
  "slice buf start end' =
     (let s = adjustOffset start (length buf); e = adjustOffset end' (length buf)
      in take (e - s) (drop s buf))"

definition sliceFrom :: "buffer \<Rightarrow> num \<Rightarrow> buffer" where
  "sliceFrom buf start = drop (adjustOffset start (length buf)) buf"

subsection \<open>Hexadecimal strings\<close>

definition hexDigit :: "int \<Rightarrow> char" where
  "hexDigit d = (if d < 10 then char_of (48 + d) else char_of (87 + d))"

text \<open>\<^verbatim>\<open>buf.toString('hex')\<close>: two lower-case digits per byte.\<close>

definition toHex :: "buffer \<Rightarrow> string" where
  "toHex buf = concat (map (\<lambda>b. [hexDigit (uint b div 16), hexDigit (uint b mod 16)]) buf)"

text \<open>The value of one hexadecimal digit, of either case (Node's \<^verbatim>\<open>unhex\<close>).\<close>

definition unhex :: "char \<Rightarrow> int option" where
  "unhex c =
     (let k = (of_char c :: int)
      in if 48 \<le> k \<and> k \<le> 57 then Some (k - 48)
         else if 97 \<le> k \<and> k \<le> 102 then Some (k - 87)
         else if 65 \<le> k \<and> k \<le> 70 then Some (k - 55)
         else None)"

text \<open>
  \<^verbatim>\<open>Buffer.from(s, 'hex')\<close>: decoding stops at the first pair that is not two hexadecimal
  digits, and a trailing single character is dropped.
\<close>

fun fromHex :: "string \<Rightarrow> buffer" where
  "fromHex (a # b # rest) =
     (case unhex a of
        None \<Rightarrow> []
      | Some x \<Rightarrow> (case unhex b of None \<Rightarrow> [] | Some y \<Rightarrow> word_of_int (16 * x + y) # fromHex rest))"
| "fromHex _ = []"

text \<open>\<^verbatim>\<open>s.padStart(n, c)\<close> for a one-character filler.\<close>

definition padStart :: "nat \<Rightarrow> char \<Rightarrow> string \<Rightarrow> string" where
  "padStart n c s = replicate (n - length s) c @ s"

subsection \<open>BigInt\<close>

text \<open>The digits of a positive number, most significant first.\<close>

function hexNat :: "int \<Rightarrow> string" where
  "hexNat n = (if n \<le> 0 then [] else hexNat (n div 16) @ [hexDigit (n mod 16)])"
  by pat_completeness auto
termination
  by (relation "measure (\<lambda>n. nat n)") auto

declare hexNat.simps [simp del]

text \<open>\<^verbatim>\<open>v.toString(16)\<close> on a BigInt: a minus sign for a negative value, \<^verbatim>\<open>"0"\<close> for zero.\<close>

definition bigIntToString16 :: "int \<Rightarrow> string" where
  "bigIntToString16 v =
     (if v = 0 then ''0''
      else if v < 0 then CHR ''-'' # hexNat (- v)
      else hexNat v)"

fun hexValue :: "string \<Rightarrow> int \<Rightarrow> int option" where
  "hexValue [] acc = Some acc"
| "hexValue (c # cs) acc = (case unhex c of None \<Rightarrow> None | Some d \<Rightarrow> hexValue cs (16 * acc + d))"

text \<open>
  \<^verbatim>\<open>BigInt('0x' + h)\<close>: a SyntaxError when no digit follows the prefix or a character is
  not a hexadecimal digit.
\<close>

definition bigIntFromHex :: "string \<Rightarrow> string + int" where
  "bigIntFromHex h =
     (if h = [] then Inl ''SyntaxError''
      else (case hexValue h 0 of None \<Rightarrow> Inl ''SyntaxError'' | Some v \<Rightarrow> Inr v))"

section \<open>ASN.1 length decoding\<close>

text \<open>
  \<^verbatim>\<open>parseLength\<close> and \<^verbatim>\<open>parseLengthBytes\<close> throw on a first byte that is neither a short
  form nor 0x81 nor 0x82; a first byte beyond the buffer is \<^verbatim>\<open>undefined\<close>, which fails
  all three comparisons and throws as well. The bytes after 0x81 and 0x82 are read
  unchecked: a missing byte after 0x81 makes the result \<^verbatim>\<open>undefined\<close>, and in the 0x82
  form \<^verbatim>\<open>undefined << 8\<close> and \<^verbatim>\<open>x | undefined\<close> count a missing byte as 0.
\<close>

definition parseLength :: "buffer \<Rightarrow> num \<Rightarrow> string + num" where
  "parseLength data offset =
     (case byteAt data offset of
        None \<Rightarrow> Inl ''Unsupported length encoding''
      | Some firstByte \<Rightarrow>
          if firstByte \<le> 0x7f then Inr (Some (uint firstByte))
          else if firstByte = 0x81 then Inr (map_option uint (byteAt data (addNum offset (Some 1))))
          else if firstByte = 0x82 then
            Inr (Some (push_bit 8 (case byteAt data (addNum offset (Some 1)) of None \<Rightarrow> 0 | Some b \<Rightarrow> uint b)
                       OR (case byteAt data (addNum offset (Some 2)) of None \<Rightarrow> 0 | Some b \<Rightarrow> uint b)))
          else Inl ''Unsupported length encoding'')"

definition parseLengthBytes :: "buffer \<Rightarrow> num \<Rightarrow> string + int" where
  "parseLengthBytes data offset =
     (case byteAt data offset of
        None \<Rightarrow> Inl ''Unsupported length encoding''
      | Some firstByte \<Rightarrow>
          if firstByte \<le> 0x7f then Inr 1
          else if firstByte = 0x81 then Inr 2
          else if firstByte = 0x82 then Inr 3
          else Inl ''Unsupported length encoding'')"

section \<open>Signature codec\<close>

text \<open>
  \<^verbatim>\<open>normalizeTo32Bytes\<close>: one leading zero of a 33-byte value is dropped, a shorter value
  is copied to the end of 32 zero bytes, and anything still longer is cut to its first
  32 bytes.
\<close>

definition normalizeTo32Bytes :: "buffer \<Rightarrow> buffer" where
  "normalizeTo32Bytes buf0 =
     (let buf = (if length buf0 = 33 \<and> byteAt buf0 (Some 0) = Some 0x00 then sliceFrom buf0 (Some 1) else buf0)
      in if length buf < 32 then replicate (32 - length buf) 0 @ buf
         else slice buf (Some 0) (Some 32))"

definition curveOrder :: int where
  "curveOrder = 0xFFFFFFFF00000000FFFFFFFFFFFFFFFFBCE6FAADA7179E84F3B9CAC2FC632551"

definition halfN :: int where
  "halfN = curveOrder div 2"

text \<open>\<^verbatim>\<open>BigInt('0x' + s.toString('hex'))\<close>.\<close>

definition bufferToBigInt :: "buffer \<Rightarrow> string + int" where
  "bufferToBigInt s = bigIntFromHex (toHex s)"

text \<open>
  The low-S step of \<^verbatim>\<open>parseDerSignature\<close> (the lines after "Normalize s to low-S form"):
  a value above \<open>halfN\<close> is replaced by the bytes that \<^verbatim>\<open>Buffer.from\<close> decodes from the
  padded hexadecimal text of \<open>curveOrder - s\<close>.
\<close>

definition normalizeLowS :: "buffer \<Rightarrow> string + buffer" where
  "normalizeLowS s =
     (case bufferToBigInt s of
        Inl e \<Rightarrow> Inl e
      | Inr sBigInt \<Rightarrow>
          if sBigInt > halfN
          then Inr (fromHex (padStart 64 (CHR ''0'') (bigIntToString16 (curveOrder - sBigInt))))
          else Inr s)"

text \<open>
  The walk of \<^verbatim>\<open>parseDerSignature\<close> over SEQUENCE, INTEGER r, INTEGER s, up to the two raw
  slices. The SEQUENCE length is skipped, not read. An undefined \<open>rLen\<close> turns the offset
  into \<^verbatim>\<open>NaN\<close>, and the read at it fails the INTEGER test.
\<close>

definition derIntegers :: "buffer \<Rightarrow> string + (buffer \<times> buffer)" where
  "derIntegers der =
     (if byteAt der (Some 0) \<noteq> Some 0x30 then Inl ''Invalid DER: expected SEQUENCE''
      else
       (case parseLengthBytes der (Some 1) of
          Inl e \<Rightarrow> Inl e
        | Inr seqLenBytes \<Rightarrow>
           (let offset1 = 1 + seqLenBytes in
            if byteAt der (Some offset1) \<noteq> Some 0x02 then Inl ''Invalid DER: expected INTEGER for r''
            else
             (case parseLength der (Some (offset1 + 1)) of
                Inl e \<Rightarrow> Inl e
              | Inr rLen \<Rightarrow>
                 (case parseLengthBytes der (Some (offset1 + 1)) of
                    Inl e \<Rightarrow> Inl e
                  | Inr rLenBytes \<Rightarrow>
                     (let offset2 = Some (offset1 + 1 + rLenBytes);
                          rRaw = slice der offset2 (addNum offset2 rLen);
                          offset3 = addNum offset2 rLen
                      in if byteAt der offset3 \<noteq> Some 0x02 then Inl ''Invalid DER: expected INTEGER for s''
                         else
                          (case parseLength der (addNum offset3 (Some 1)) of
                             Inl e \<Rightarrow> Inl e
                           | Inr sLen \<Rightarrow>
                              (case parseLengthBytes der (addNum offset3 (Some 1)) of
                                 Inl e \<Rightarrow> Inl e
                               | Inr sLenBytes \<Rightarrow>
                                  (let offset4 = addNum (addNum offset3 (Some 1)) (Some sLenBytes);
                                       sRaw = slice der offset4 (addNum offset4 sLen)
                                   in Inr (rRaw, sRaw))))))))))"

definition parseDerSignature :: "buffer \<Rightarrow> string + (buffer \<times> buffer)" where
  "parseDerSignature der =
     (case derIntegers der of
        Inl e \<Rightarrow> Inl e
      | Inr (rRaw, sRaw) \<Rightarrow>
          (case normalizeLowS (normalizeTo32Bytes sRaw) of
             Inl e \<Rightarrow> Inl e
           | Inr s \<Rightarrow> Inr (normalizeTo32Bytes rRaw, s)))"

section \<open>Key and certificate codecs\<close>

text \<open>
  The fields \<^verbatim>\<open>x\<close>, \<^verbatim>\<open>y\<close> of \<^verbatim>\<open>PublicKeyResult\<close> and \<^verbatim>\<open>r\<close>, \<^verbatim>\<open>s\<close> of \<^verbatim>\<open>SignatureResult\<close> carry
  a prefix here, since a record field is a constant of the whole theory.
\<close>

record publicKeyResult =
  publicKeyHex :: string
  pk_x :: string
  pk_y :: string

record signatureResult =
  signatureDer :: string
  sig_r :: string
  sig_s :: string

text \<open>
  A \<^verbatim>\<open>for (i = a; i < b; i++)\<close> loop whose body returns from the function at its first
  hit: the body is tried at each index in turn.
\<close>

fun firstHit :: "(int \<Rightarrow> 'a option) \<Rightarrow> int list \<Rightarrow> 'a option" where
  "firstHit body [] = None"
| "firstHit body (i # rest) = (case body i of Some res \<Rightarrow> Some res | None \<Rightarrow> firstHit body rest)"

definition ecPubKeyOid :: buffer where
  "ecPubKeyOid = [0x06, 0x07, 0x2a, 0x86, 0x48, 0xce, 0x3d, 0x02, 0x01]"

text \<open>The first loop of \<^verbatim>\<open>parsePublicKeyFromCert\<close>: the index of the EC public key OID.\<close>

definition findEcOid :: "buffer \<Rightarrow> int option" where
  "findEcOid data =
     List.find (\<lambda>i. slice data (Some i) (Some (i + int (length ecPubKeyOid))) = ecPubKeyOid)
       [0 .. int (length data) - int (length ecPubKeyOid) - 1]"

text \<open>
  The body of the second loop at index \<open>i\<close>: a BIT STRING tag, its length in short form or
  after 0x81 or 0x82, and a content of 66 bytes that starts with 00 04.
\<close>

definition bitStringAt :: "buffer \<Rightarrow> int \<Rightarrow> publicKeyResult option" where
  "bitStringAt data i =
     (if byteAt data (Some i) = Some 0x03 then
        (let lenOffset0 = i + 1;
             first = byteAt data (Some lenOffset0);
             bitStringLen =
               (if first = Some 0x81 then map_option uint (byteAt data (Some (lenOffset0 + 1)))
                else if first = Some 0x82 then
                  Some (push_bit 8 (case byteAt data (Some (lenOffset0 + 1)) of None \<Rightarrow> 0 | Some b \<Rightarrow> uint b)
                        OR (case byteAt data (Some (lenOffset0 + 2)) of None \<Rightarrow> 0 | Some b \<Rightarrow> uint b))
                else map_option uint first);
             lenOffset = (if first = Some 0x81 then lenOffset0 + 1
                          else if first = Some 0x82 then lenOffset0 + 2 else lenOffset0)
         in if bitStringLen = Some 66 then
              (let contentStart = lenOffset + 1 in
               if byteAt data (Some contentStart) = Some 0x00 \<and> byteAt data (Some (contentStart + 1)) = Some 0x04
               then Some \<lparr> publicKeyHex = toHex (slice data (Some (contentStart + 1)) (Some (contentStart + 66))),
                           pk_x = toHex (slice data (Some (contentStart + 2)) (Some (contentStart + 34))),
                           pk_y = toHex (slice data (Some (contentStart + 34)) (Some (contentStart + 66))) \<rparr>
               else None)
            else None)
      else None)"

text \<open>The primary strategy: the BIT STRING scan that starts right after the OID.\<close>

definition bitStringScan :: "buffer \<Rightarrow> int \<Rightarrow> publicKeyResult option" where
  "bitStringScan data ecOidIndex =
     firstHit (bitStringAt data) [ecOidIndex + int (length ecPubKeyOid) .. int (length data) - 67 - 1]"

definition fallbackAt :: "buffer \<Rightarrow> int \<Rightarrow> publicKeyResult option" where
  "fallbackAt data i =
     (if byteAt data (Some i) = Some 0x03 \<and> byteAt data (Some (i + 1)) = Some 0x42
         \<and> byteAt data (Some (i + 2)) = Some 0x00 \<and> byteAt data (Some (i + 3)) = Some 0x04
      then Some \<lparr> publicKeyHex = toHex (slice data (Some (i + 3)) (Some (i + 68))),
                  pk_x = toHex (slice data (Some (i + 4)) (Some (i + 36))),
                  pk_y = toHex (slice data (Some (i + 36)) (Some (i + 68))) \<rparr>
      else if byteAt data (Some i) = Some 0x03 \<and> byteAt data (Some (i + 1)) = Some 0x81
         \<and> byteAt data (Some (i + 2)) = Some 0x42 \<and> byteAt data (Some (i + 3)) = Some 0x00
         \<and> byteAt data (Some (i + 4)) = Some 0x04
      then Some \<lparr> publicKeyHex = toHex (slice data (Some (i + 4)) (Some (i + 69))),
                  pk_x = toHex (slice data (Some (i + 5)) (Some (i + 37))),
                  pk_y = toHex (slice data (Some (i + 37)) (Some (i + 69))) \<rparr>
      else None)"

definition parsePublicKeyFallback :: "buffer \<Rightarrow> publicKeyResult option" where
  "parsePublicKeyFallback data = firstHit (fallbackAt data) [0 .. int (length data) - 67 - 1]"

text \<open>
  \<^verbatim>\<open>parsePublicKeyFromCert\<close>. Nothing in its \<^verbatim>\<open>try\<close> block throws (reads out of range are
  \<^verbatim>\<open>undefined\<close>, slices clamp), so its \<^verbatim>\<open>catch\<close> has no branch here.
\<close>

definition parsePublicKeyFromCert :: "buffer \<Rightarrow> publicKeyResult option" where
  "parsePublicKeyFromCert data =
     (case findEcOid data of
        None \<Rightarrow> parsePublicKeyFallback data
      | Some ecOidIndex \<Rightarrow>
          (case bitStringScan data ecOidIndex of
             Some res \<Rightarrow> Some res
           | None \<Rightarrow> parsePublicKeyFallback data))"

text \<open>\<^verbatim>\<open>Buffer.from([...])\<close> keeps the low 8 bits of each number.\<close>

definition encodeLength :: "nat \<Rightarrow> buffer" where
  "encodeLength len =
     (if len < 128 then [of_nat len]
      else if len < 256 then [0x81, of_nat len]
      else [0x82, of_nat (drop_bit 8 len), of_nat len])"

definition algId :: buffer where
  "algId = [0x30, 0x13, 0x06, 0x07, 0x2a, 0x86, 0x48, 0xce, 0x3d, 0x02, 0x01,
            0x06, 0x08, 0x2a, 0x86, 0x48, 0xce, 0x3d, 0x03, 0x01, 0x07]"

definition buildSubjectPublicKeyInfo :: "publicKeyResult \<Rightarrow> buffer" where
  "buildSubjectPublicKeyInfo publicKey =
     (let ecPoint = fromHex (publicKeyHex publicKey);
          pubKeyBitString = [0x03, of_nat (length ecPoint + 1), 0x00] @ ecPoint;
          inner = algId @ pubKeyBitString
      in [0x30] @ encodeLength (length inner) @ inner)"

text \<open>
  \<^verbatim>\<open>parsePublicKeyResponse\<close>, for the answer to GENERATE ASYMMETRIC KEY PAIR. An exception
  of the length decoders is caught and becomes \<^verbatim>\<open>null\<close>.
\<close>

definition parsePublicKeyResponse :: "buffer \<Rightarrow> publicKeyResult option" where
  "parsePublicKeyResponse response =
     (if byteAt response (Some 0) \<noteq> Some 0x7f \<or> byteAt response (Some 1) \<noteq> Some 0x49 then None
      else
       (case parseLengthBytes response (Some 2) of
          Inl e \<Rightarrow> None
        | Inr skip \<Rightarrow>
           (let offset1 = 2 + skip in
            if byteAt response (Some offset1) \<noteq> Some 0x86 then None
            else
             (case parseLengthBytes response (Some (offset1 + 1)) of
                Inl e \<Rightarrow> None
              | Inr lenInfo \<Rightarrow>
                 (case parseLength response (Some (offset1 + 1)) of
                    Inl e \<Rightarrow> None
                  | Inr pubKeyLen \<Rightarrow>
                     (let offset2 = Some (offset1 + 1 + lenInfo);
                          pubKey = slice response offset2 (addNum offset2 pubKeyLen)
                      in if length pubKey \<noteq> 65 \<or> byteAt pubKey (Some 0) \<noteq> Some 0x04 then None
                         else Some \<lparr> publicKeyHex = toHex pubKey,
                                     pk_x = toHex (slice pubKey (Some 1) (Some 33)),
                                     pk_y = toHex (slice pubKey (Some 33) (Some 65)) \<rparr>))))))"

text \<open>\<^verbatim>\<open>parseSignatureResponse\<close>, for the answer to GENERAL AUTHENTICATE.\<close>

definition parseSignatureResponse :: "buffer \<Rightarrow> signatureResult option" where
  "parseSignatureResponse response =
     (if byteAt response (Some 0) \<noteq> Some 0x7c then None
      else
       (case parseLengthBytes response (Some 1) of
          Inl e \<Rightarrow> None
        | Inr skip \<Rightarrow>
           (let offset1 = 1 + skip in
            if byteAt response (Some offset1) \<noteq> Some 0x82 then None
            else
             (case parseLengthBytes response (Some (offset1 + 1)) of
                Inl e \<Rightarrow> None
              | Inr lenInfo \<Rightarrow>
                 (case parseLength response (Some (offset1 + 1)) of
                    Inl e \<Rightarrow> None
                  | Inr sigLen \<Rightarrow>
                     (let offset2 = Some (offset1 + 1 + lenInfo);
                          sigDer = slice response offset2 (addNum offset2 sigLen)
                      in case parseDerSignature sigDer of
                           Inl e \<Rightarrow> None
                         | Inr (rBuf, sBuf) \<Rightarrow>
                             Some \<lparr> signatureDer = toHex sigDer,
                                    sig_r = padStart 64 (CHR ''0'') (toHex rBuf),
                                    sig_s = padStart 64 (CHR ''0'') (toHex sBuf) \<rparr>))))))"

text \<open>
  The loop of \<^verbatim>\<open>parseTlvValue\<close>. An undefined length makes the next offset \<^verbatim>\<open>NaN\<close>, the
  loop test fails and the function returns \<^verbatim>\<open>null\<close>; at the wanted tag an undefined
  length makes the end of the slice \<^verbatim>\<open>NaN\<close>, which slices to the empty buffer.
\<close>

function parseTlvLoop :: "buffer \<Rightarrow> byte \<Rightarrow> int \<Rightarrow> buffer option" where
  "parseTlvLoop data tag offset =
     (if offset < int (length data) - 1 then
        (case parseLength data (Some (offset + 1)) of
           Inl e \<Rightarrow> None
         | Inr len \<Rightarrow>
            (case parseLengthBytes data (Some (offset + 1)) of
               Inl e \<Rightarrow> None
             | Inr lenBytes \<Rightarrow>
                if byteAt data (Some offset) = Some tag
                then Some (slice data (Some (offset + 1 + lenBytes)) (addNum (Some (offset + 1 + lenBytes)) len))
                else (case len of
                        None \<Rightarrow> None
                      | Some l \<Rightarrow> parseTlvLoop data tag (offset + 1 + lenBytes + l))))
      else None)"
  by pat_completeness auto
termination
proof (relation "measure (\<lambda>(data, tag, offset). nat (int (length data) - offset))")
  show "wf (measure (\<lambda>(data, tag, offset). nat (int (length data) - offset)))"
    by simp
next
  fix data :: buffer and tag :: byte and offset :: int and len lenBytes l
  assume lt: "offset < int (length data) - 1"
    and len: "parseLength data (Some (offset + 1)) = Inr len"
    and lb: "parseLengthBytes data (Some (offset + 1)) = Inr lenBytes"
    and l: "len = Some l"
  have "1 \<le> lenBytes"
    using lb by (auto simp: parseLengthBytes_def split: option.splits if_splits)
  moreover have "0 \<le> l"
    using len l by (auto simp: parseLength_def split: option.splits if_splits)
  ultimately show "((data, tag, offset + 1 + lenBytes + l), (data, tag, offset))
      \<in> measure (\<lambda>(data, tag, offset). nat (int (length data) - offset))"
    using lt by simp
qed

declare parseTlvLoop.simps [simp del]

definition parseTlvValue :: "buffer \<Rightarrow> byte \<Rightarrow> buffer option" where
  "parseTlvValue data tag =
     (if byteAt data (Some 0) = Some 0x7c then
        (case parseLengthBytes data (Some 1) of
           Inl e \<Rightarrow> None
         | Inr skip \<Rightarrow> parseTlvLoop data tag (1 + skip))
      else parseTlvLoop data tag 0)"

section \<open>The card, the session and the APDU transport\<close>

text \<open>
  \<^verbatim>\<open>YubiKeyResult<T>\<close>: \<open>Inl\<close> carries the error message of a failure, \<open>Inr\<close> the data of a
  success.
\<close>

type_synonym 'a result = "string + 'a"

text \<open>
  The fields of \<^verbatim>\<open>YubiKeyPCSC\<close> that the operations below read or write, and \<open>sent\<close>: the
  commands handed to \<^verbatim>\<open>reader.transmit\<close> so far, oldest first.
\<close>

record session =
  readerPresent :: bool
  protocol :: "int option"
  isConnected :: bool
  connectPromiseResolved :: bool
  sent :: "buffer list"

text \<open>
  What \<^verbatim>\<open>storeCertificateViaYkman\<close> can do to its caller: settle with a result, reject
  (\<^verbatim>\<open>mkdtempSync\<close> stands outside its \<^verbatim>\<open>try\<close>) or never call back.
\<close>

datatype storeOutcome = StoreSettled "unit result" | StoreRejected string | StoreNeverSettles

datatype 'a settled = Resolved 'a | Rejected string

text \<open>
  Everything outside the class. The card is deterministic: its answer to a command (the
  error message or the data of the \<^verbatim>\<open>reader.transmit\<close> callback) is a function of all the
  commands sent so far, the last one being the current command. AES-192-ECB without
  padding (key first) and the 16 random bytes come from Node's \<^verbatim>\<open>crypto\<close>; \<open>ykman\<close> is the
  outcome of the out-of-process certificate store for a slot and a key; \<open>reconnect\<close> is the
  session that \<^verbatim>\<open>reconnectAfterYkman\<close> leaves behind, \<open>None\<close> when \<^verbatim>\<open>connect\<close> never settles.
\<close>

record env =
  card :: "buffer list \<Rightarrow> buffer result"
  aesEncrypt :: "buffer \<Rightarrow> buffer \<Rightarrow> buffer"
  aesDecrypt :: "buffer \<Rightarrow> buffer \<Rightarrow> buffer"
  randomBytes16 :: buffer
  ykman :: "int \<Rightarrow> publicKeyResult \<Rightarrow> storeOutcome"
  reconnect :: "session \<Rightarrow> session option"

definition transmitRaw :: "env \<Rightarrow> session \<Rightarrow> buffer \<Rightarrow> session \<times> buffer result" where
  "transmitRaw e st command =
     (if \<not> readerPresent st \<or> protocol st = None then (st, Inl ''Not connected'')
      else (st\<lparr>sent := sent st @ [command]\<rparr>, card e (sent st @ [command])))"

text \<open>GET RESPONSE for the second status byte.\<close>

definition getResponse :: "byte \<Rightarrow> buffer" where
  "getResponse sw2 = [0x00, 0xc0, 0x00, 0x00, sw2]"

text \<open>
  The \<^verbatim>\<open>while\<close> loop of \<^verbatim>\<open>transmit\<close>. A card that answers 61 XX for ever keeps it running:
  then the result is \<open>None\<close>.
\<close>

partial_function (option) transmitLoop :: "env \<Rightarrow> session \<Rightarrow> buffer \<Rightarrow> (session \<times> buffer result) option" where
  "transmitLoop e st data =
     (if 2 \<le> length data then
        (if byteAt data (Some (int (length data) - 2)) = Some 0x61 then
           (case transmitRaw e st
                   (getResponse (case byteAt data (Some (int (length data) - 1)) of None \<Rightarrow> 0 | Some sw2 \<Rightarrow> sw2)) of
              (st', Inl err) \<Rightarrow> Some (st', Inl err)
            | (st', Inr moreData) \<Rightarrow> transmitLoop e st' (slice data (Some 0) (Some (- 2)) @ moreData))
         else Some (st, Inr data))
      else Some (st, Inr data))"

definition transmit :: "env \<Rightarrow> session \<Rightarrow> buffer \<Rightarrow> (session \<times> buffer result) option" where
  "transmit e st command =
     (case transmitRaw e st command of
        (st', Inl err) \<Rightarrow> Some (st', Inl err)
      | (st', Inr data) \<Rightarrow> transmitLoop e st' data)"

section \<open>PIV session\<close>

text \<open>A number in a template literal: its decimal digits.\<close>

function decimal :: "nat \<Rightarrow> string" where
  "decimal n = (if n < 10 then [char_of (48 + n)] else decimal (n div 10) @ [char_of (48 + n mod 10)])"
  by pat_completeness auto
termination
  by (relation "measure (\<lambda>n. n)") auto

declare decimal.simps [simp del]

text \<open>
  \<^verbatim>\<open>Buffer.alloc(8, 0xff)\<close> with \<^verbatim>\<open>Buffer.from(pin, 'ascii')\<close> copied over its start: the copy
  stops at the end of the target.
\<close>

definition pinBytes :: "string \<Rightarrow> buffer" where
  "pinBytes pin =
     (let src = map (\<lambda>c. (of_char c :: byte)) pin
      in take 8 src @ replicate (8 - length src) 0xff)"

definition verifyCommand :: "string \<Rightarrow> buffer" where
  "verifyCommand pin = [0x00, 0x20, 0x00, 0x80, 0x08] @ pinBytes pin"

definition verifyPin :: "env \<Rightarrow> session \<Rightarrow> string \<Rightarrow> (session \<times> unit result) option" where
  "verifyPin e st pin =
     (case transmit e st (verifyCommand pin) of
        None \<Rightarrow> None
      | Some (st', Inl err) \<Rightarrow> Some (st', Inl err)
      | Some (st', Inr data) \<Rightarrow>
          (let sw = sliceFrom data (Some (- 2));
               sw1 = byteAt sw (Some 0);
               sw2 = byteAt sw (Some 1)
           in if sw1 = Some 0x90 \<and> sw2 = Some 0x00 then Some (st', Inr ())
              else if sw1 = Some 0x63 \<and> (case sw2 of None \<Rightarrow> 0 | Some b \<Rightarrow> b AND 0xf0) = 0xc0 then
                Some (st', Inl (''Wrong PIN. ''
                                @ decimal (unat (case sw2 of None \<Rightarrow> 0 | Some b \<Rightarrow> b AND 0x0f))
                                @ '' attempts remaining.''))
              else if sw1 = Some 0x69 \<and> sw2 = Some 0x83 then Some (st', Inl ''PIN is blocked.'')
              else Some (st', Inl (''PIN verification failed: SW='' @ toHex sw))))"

definition getSlotObjectId :: "int \<Rightarrow> buffer option" where
  "getSlotObjectId slot =
     (if slot = 0x9a then Some [0x5f, 0xc1, 0x05]
      else if slot = 0x9c then Some [0x5f, 0xc1, 0x0a]
      else if slot = 0x9d then Some [0x5f, 0xc1, 0x0b]
      else if slot = 0x9e then Some [0x5f, 0xc1, 0x01]
      else None)"

definition getDataCommand :: "buffer \<Rightarrow> buffer" where
  "getDataCommand objectId =
     [0x00, 0xcb, 0x3f, 0xff] @ [of_nat (length objectId + 2)] @ [0x5c, of_nat (length objectId)]
     @ objectId @ [0x00]"

definition readPublicKey :: "env \<Rightarrow> session \<Rightarrow> int \<Rightarrow> (session \<times> publicKeyResult result) option" where
  "readPublicKey e st slot =
     (case getSlotObjectId slot of
        None \<Rightarrow> Some (st, Inl ''Invalid slot'')
      | Some objectId \<Rightarrow>
          (case transmit e st (getDataCommand objectId) of
             None \<Rightarrow> None
           | Some (st', Inl err) \<Rightarrow> Some (st', Inl err)
           | Some (st', Inr data) \<Rightarrow>
               (let sw = sliceFrom data (Some (- 2)) in
                if byteAt sw (Some 0) = Some 0x6a \<and> byteAt sw (Some 1) = Some 0x82
                then Some (st', Inl ''NO_KEY'')
                else if byteAt sw (Some 0) \<noteq> Some 0x90 \<or> byteAt sw (Some 1) \<noteq> Some 0x00
                then Some (st', Inl (''Read public key failed: SW='' @ toHex sw))
                else (case parsePublicKeyFromCert (slice data (Some 0) (Some (- 2))) of
                        None \<Rightarrow> Some (st', Inl ''Failed to parse public key from response'')
                      | Some pubKey \<Rightarrow> Some (st', Inr pubKey)))))"

definition mgmtKey :: buffer where
  "mgmtKey = [0x01, 0x02, 0x03, 0x04, 0x05, 0x06, 0x07, 0x08, 0x01, 0x02, 0x03, 0x04, 0x05, 0x06, 0x07,
              0x08, 0x01, 0x02, 0x03, 0x04, 0x05, 0x06, 0x07, 0x08]"

definition witnessReqCmd :: buffer where
  "witnessReqCmd = [0x00, 0x87, 0x0a, 0x9b, 0x04, 0x7c, 0x02, 0x80, 0x00]"

definition authCmd :: "buffer \<Rightarrow> buffer \<Rightarrow> buffer" where
  "authCmd decryptedWitness challenge =
     [0x00, 0x87, 0x0a, 0x9b, 0x26, 0x7c, 0x24, 0x80, 0x10] @ decryptedWitness @ [0x81, 0x10] @ challenge"

definition authenticateManagementKey :: "env \<Rightarrow> session \<Rightarrow> (session \<times> unit result) option" where
  "authenticateManagementKey e st =
     (case transmit e st witnessReqCmd of
        None \<Rightarrow> None
      | Some (st1, Inl err) \<Rightarrow> Some (st1, Inl err)
      | Some (st1, Inr data) \<Rightarrow>
          (let sw = sliceFrom data (Some (- 2)) in
           if byteAt sw (Some 0) \<noteq> Some 0x90 \<or> byteAt sw (Some 1) \<noteq> Some 0x00
           then Some (st1, Inl (''Witness request failed: SW='' @ toHex sw))
           else
            (case parseTlvValue (slice data (Some 0) (Some (- 2))) 0x80 of
               None \<Rightarrow> Some (st1, Inl ''Failed to parse witness (got undefined bytes, expected 16)'')
             | Some witness \<Rightarrow>
                 if length witness \<noteq> 16
                 then Some (st1, Inl (''Failed to parse witness (got '' @ decimal (length witness)
                                      @ '' bytes, expected 16)''))
                 else
                  (let decryptedWitness = aesDecrypt e mgmtKey witness;
                       challenge = randomBytes16 e
                   in case transmit e st1 (authCmd decryptedWitness challenge) of
                        None \<Rightarrow> None
                      | Some (st2, Inl err) \<Rightarrow> Some (st2, Inl err)
                      | Some (st2, Inr data2) \<Rightarrow>
                          (let sw' = sliceFrom data2 (Some (- 2)) in
                           if byteAt sw' (Some 0) \<noteq> Some 0x90 \<or> byteAt sw' (Some 1) \<noteq> Some 0x00
                           then Some (st2, Inl (''Management key auth failed: SW='' @ toHex sw'))
                           else
                            (case parseTlvValue (slice data2 (Some 0) (Some (- 2))) 0x82 of
                               None \<Rightarrow> Some (st2, Inl ''Failed to parse card response'')
                             | Some cardResponse \<Rightarrow>
                                 if length cardResponse \<noteq> 16
                                 then Some (st2, Inl ''Failed to parse card response'')
                                 else if cardResponse \<noteq> aesEncrypt e mgmtKey challenge
                                 then Some (st2, Inl ''Card response verification failed'')
                                 else Some (st2, Inr ())))))))"

definition generateCommand :: "int \<Rightarrow> buffer" where
  "generateCommand slot = [0x00, 0x47, 0x00, word_of_int slot, 0x05, 0xac, 0x03, 0x80, 0x01, 0x11]"

definition generateNewKey :: "env \<Rightarrow> session \<Rightarrow> int \<Rightarrow> (session \<times> publicKeyResult result) option" where
  "generateNewKey e st slot =
     (case authenticateManagementKey e st of
        None \<Rightarrow> None
      | Some (st1, Inl err) \<Rightarrow> Some (st1, Inl err)
      | Some (st1, Inr u) \<Rightarrow>
          (case transmit e st1 (generateCommand slot) of
             None \<Rightarrow> None
           | Some (st2, Inl err) \<Rightarrow> Some (st2, Inl err)
           | Some (st2, Inr data) \<Rightarrow>
               (let sw = sliceFrom data (Some (- 2)) in
                if byteAt sw (Some 0) \<noteq> Some 0x90 \<or> byteAt sw (Some 1) \<noteq> Some 0x00
                then Some (st2, Inl (''Key generation failed: SW='' @ toHex sw))
                else (case parsePublicKeyResponse (slice data (Some 0) (Some (- 2))) of
                        None \<Rightarrow> Some (st2, Inl ''Failed to parse generated public key'')
                      | Some pubKey \<Rightarrow> Some (st2, Inr pubKey)))))"

definition disconnectForYkman :: "session \<Rightarrow> session" where
  "disconnectForYkman st =
     st\<lparr>readerPresent := False, protocol := None, isConnected := False, connectPromiseResolved := False\<rparr>"

text \<open>
  \<^verbatim>\<open>generateP256Key\<close>, the generate-or-read operation on slot 9A. The result of the
  certificate store is only logged. A rejection of the store reaches the caller before the
  reconnect.
\<close>

definition generateP256Key :: "env \<Rightarrow> session \<Rightarrow> (session \<times> publicKeyResult result settled) option" where
  "generateP256Key e st =
     (case readPublicKey e st 0x9a of
        None \<Rightarrow> None
      | Some (st1, Inr pubKey) \<Rightarrow> Some (st1, Resolved (Inr pubKey))
      | Some (st1, Inl err) \<Rightarrow>
          if err = ''NO_KEY'' then
            (case generateNewKey e st1 0x9a of
               None \<Rightarrow> None
             | Some (st2, Inl generr) \<Rightarrow> Some (st2, Resolved (Inl generr))
             | Some (st2, Inr pubKey) \<Rightarrow>
                 (case ykman e 0x9a pubKey of
                    StoreNeverSettles \<Rightarrow> None
                  | StoreRejected msg \<Rightarrow> Some (disconnectForYkman st2, Rejected msg)
                  | StoreSettled storeResult \<Rightarrow>
                      (case reconnect e (disconnectForYkman st2) of
                         None \<Rightarrow> None
                       | Some st3 \<Rightarrow> Some (st3, Resolved (Inr pubKey)))))
          else Some (st1, Resolved (Inl err)))"

text \<open>\<^verbatim>\<open>s.replace('0x', '')\<close>: the first occurrence, wherever it stands.\<close>

fun replace0x :: "string \<Rightarrow> string" where
  "replace0x (a # b # rest) = (if a = CHR ''0'' \<and> b = CHR ''x'' then rest else a # replace0x (b # rest))"
| "replace0x str = str"

definition signCommand :: "buffer \<Rightarrow> buffer" where
  "signCommand hash = [0x00, 0x87, 0x11, 0x9a, 0x26, 0x7c, 0x24, 0x82, 0x00, 0x81, 0x20] @ hash"

definition signHash :: "env \<Rightarrow> session \<Rightarrow> string \<Rightarrow> (session \<times> signatureResult result) option" where
  "signHash e st hashHex =
     (let hash = fromHex (replace0x hashHex) in
      if length hash \<noteq> 32
      then Some (st, Inl (''Hash must be 32 bytes, got '' @ decimal (length hash)))
      else
       (case transmit e st (signCommand hash) of
          None \<Rightarrow> None
        | Some (st', Inl err) \<Rightarrow> Some (st', Inl err)
        | Some (st', Inr data) \<Rightarrow>
            (let sw = sliceFrom data (Some (- 2)) in
             if byteAt sw (Some 0) \<noteq> Some 0x90 \<or> byteAt sw (Some 1) \<noteq> Some 0x00
             then Some (st', Inl (''Signing failed: SW='' @ toHex sw))
             else (case parseSignatureResponse (slice data (Some 0) (Some (- 2))) of
                     None \<Rightarrow> Some (st', Inl ''Failed to parse signature from response'')
                   | Some sig \<Rightarrow> Some (st', Inr sig)))))"

section \<open>Auxiliary notions for the proofs\<close>

text \<open>The big-endian value of a buffer, continuing from an accumulator.\<close>

fun beAcc :: "buffer \<Rightarrow> int \<Rightarrow> int" where
  "beAcc [] acc = acc"
| "beAcc (b # bs) acc = beAcc bs (256 * acc + uint b)"

text \<open>Strings made of lower-case hexadecimal digits only.\<close>

definition lowerHex :: "string \<Rightarrow> bool" where
  "lowerHex s = (\<forall>c\<in>set s. \<exists>d. 0 \<le> d \<and> d < 16 \<and> c = hexDigit d)"

text \<open>The test of \<^verbatim>\<open>transmitRaw\<close>: a reader and a protocol.\<close>

definition connected :: "session \<Rightarrow> bool" where
  "connected st = (readerPresent st \<and> protocol st \<noteq> None)"

text \<open>
  Fixtures for concrete runs: a card that answers its n-th command with the n-th entry of a
  script, a stand-in cipher (reversal of the block), a certificate store that fails and a
  reconnect that succeeds.
\<close>

definition scriptedCard :: "buffer result list \<Rightarrow> buffer list \<Rightarrow> buffer result" where
  "scriptedCard answers history =
     (if history \<noteq> [] \<and> length history \<le> length answers then answers ! (length history - 1)
      else Inl ''SCARD_W_REMOVED_CARD'')"

definition testEnv :: "buffer result list \<Rightarrow> env" where
  "testEnv answers =
     \<lparr> card = scriptedCard answers,
       aesEncrypt = (\<lambda>key block. rev block),
       aesDecrypt = (\<lambda>key block. rev block),
       randomBytes16 = [0xa0, 0xa1, 0xa2, 0xa3, 0xa4, 0xa5, 0xa6, 0xa7, 0xa8, 0xa9, 0xaa, 0xab, 0xac, 0xad, 0xae, 0xaf],
       ykman = (\<lambda>slot publicKey. StoreSettled (Inl ''ykman failed: no such command'')),
       reconnect = (\<lambda>st. Some (st\<lparr>readerPresent := True, protocol := Some 2, isConnected := True,
                                     connectPromiseResolved := True\<rparr>)) \<rparr>"

text \<open>
  A certificate store whose temporary directory cannot be created: \<^verbatim>\<open>fs.mkdtempSync\<close> stands
  before the \<^verbatim>\<open>try\<close> block of \<^verbatim>\<open>storeCertificateViaYkman\<close>, so its exception rejects the
  promise of the store with the message of the error.
\<close>

definition storeThrows :: "string \<Rightarrow> env \<Rightarrow> env" where
  "storeThrows msg e = e\<lparr>ykman := (\<lambda>slot publicKey. StoreRejected msg)\<rparr>"

definition freshSession :: session where
  "freshSession = \<lparr> readerPresent = True, protocol = Some 2, isConnected = True,
                     connectPromiseResolved = True, sent = [] \<rparr>"

text \<open>
  Scripted answers for a run of the handshake: the card's witness, its answer to the
  challenge of the fixtures (the reversed challenge when the first byte is 0xAF) and a
  generated key.
\<close>

definition witnessAnswer :: buffer where
  "witnessAnswer = [0x7c, 0x12, 0x80, 0x10,
      0x10, 0x11, 0x12, 0x13, 0x14, 0x15, 0x16, 0x17, 0x18, 0x19, 0x1a, 0x1b, 0x1c, 0x1d, 0x1e, 0x1f]"

definition cardAnswer :: "byte \<Rightarrow> buffer" where
  "cardAnswer b = [0x7c, 0x12, 0x82, 0x10,
      b, 0xae, 0xad, 0xac, 0xab, 0xaa, 0xa9, 0xa8, 0xa7, 0xa6, 0xa5, 0xa4, 0xa3, 0xa2, 0xa1, 0xa0]"

definition keyAnswer :: buffer where
  "keyAnswer = [0x7f, 0x49, 0x43, 0x86, 0x41, 0x04] @ replicate 32 0x11 @ replicate 32 0x22"

definition testAuthCmd :: buffer where
  "testAuthCmd = authCmd [0x1f, 0x1e, 0x1d, 0x1c, 0x1b, 0x1a, 0x19, 0x18, 0x17, 0x16, 0x15, 0x14, 0x13, 0x12, 0x11, 0x10]
                   [0xa0, 0xa1, 0xa2, 0xa3, 0xa4, 0xa5, 0xa6, 0xa7, 0xa8, 0xa9, 0xaa, 0xab, 0xac, 0xad, 0xae, 0xaf]"

text \<open>
  The bytes that \<open>buildSubjectPublicKeyInfo\<close> puts before the coordinates of a 65-byte
  point: SEQUENCE, the algorithm identifier, BIT STRING of 66 bytes, 00 and 04.
\<close>

definition spkiPrefix :: buffer where
  "spkiPrefix = [0x30, 0x59, 0x30, 0x13, 0x06, 0x07, 0x2a, 0x86, 0x48, 0xce, 0x3d, 0x02, 0x01,
            0x06, 0x08, 0x2a, 0x86, 0x48, 0xce, 0x3d, 0x03, 0x01, 0x07, 0x03, 0x42, 0x00, 0x04]"

section \<open>Properties of the codecs\<close>

subsection \<open>Hexadecimal text and big integers\<close>

lemma unhex_hexDigit: "0 \<le> d \<Longrightarrow> d < 16 \<Longrightarrow> unhex (hexDigit d) = Some d"
proof -
  assume "0 \<le> d" "d < 16"
  then have "d = 0 \<or> d = 1 \<or> d = 2 \<or> d = 3 \<or> d = 4 \<or> d = 5 \<or> d = 6 \<or> d = 7 \<or> d = 8 \<or> d = 9
     \<or> d = 10 \<or> d = 11 \<or> d = 12 \<or> d = 13 \<or> d = 14 \<or> d = 15" by arith
  then show ?thesis by (elim disjE) (simp_all add: unhex_def hexDigit_def)
qed

lemma uint_div16: "0 \<le> uint (b::byte) div 16 \<and> uint b div 16 < 16"
proof -
  have "0 \<le> uint b" "uint b < 256" using uint_bounded [of b] by simp_all
  then show ?thesis by arith
qed

lemma toHex_Cons: "toHex (b # bs) = hexDigit (uint b div 16) # hexDigit (uint b mod 16) # toHex bs"
  by (simp add: toHex_def)

lemma toHex_Nil: "toHex [] = []"
  by (simp add: toHex_def)

lemma hexValue_toHex: "hexValue (toHex buf) acc = Some (beAcc buf acc)"
proof (induction buf arbitrary: acc)
  case Nil
  then show ?case by (simp add: toHex_Nil)
next
  case (Cons b bs)
  have h: "unhex (hexDigit (uint b div 16)) = Some (uint b div 16)"
    using uint_div16 [of b] by (simp add: unhex_hexDigit)
  have l: "unhex (hexDigit (uint b mod 16)) = Some (uint b mod 16)"
    by (simp add: unhex_hexDigit)
  have "16 * (16 * acc + uint b div 16) + uint b mod 16 = 256 * acc + uint b"
    by simp
  then show ?case using Cons.IH h l by (simp add: toHex_Cons add.commute)
qed

lemma beAcc_bounds: "0 \<le> acc \<Longrightarrow> 0 \<le> beAcc buf acc \<and> beAcc buf acc < (acc + 1) * 256 ^ length buf"
proof (induction buf arbitrary: acc)
  case Nil
  then show ?case by simp
next
  case (Cons b bs)
  have b: "0 \<le> uint b" "uint b < 256" using uint_bounded [of b] by simp_all
  have "0 \<le> 256 * acc + uint b" using Cons.prems b by simp
  from Cons.IH [OF this]
  have ih: "0 \<le> beAcc bs (256 * acc + uint b)"
    "beAcc bs (256 * acc + uint b) < (256 * acc + uint b + 1) * 256 ^ length bs" by simp_all
  have "(256 * acc + uint b + 1) \<le> (acc + 1) * 256" using b by simp
  then have "(256 * acc + uint b + 1) * 256 ^ length bs \<le> ((acc + 1) * 256) * 256 ^ length bs"
    by (rule mult_right_mono) simp
  then have A: "beAcc bs (256 * acc + uint b) < ((acc + 1) * 256) * 256 ^ length bs"
    using ih(2) by linarith
  have e1: "beAcc (b # bs) acc = beAcc bs (256 * acc + uint b)" by simp
  have e2: "(acc + 1) * 256 ^ length (b # bs) = ((acc + 1) * 256) * 256 ^ length bs" by simp
  show ?case unfolding e1 e2 using ih(1) A by blast
qed


lemma hexNat_props:
  "0 \<le> v \<Longrightarrow> lowerHex (hexNat v) \<and> hexValue (hexNat v @ rest) acc = hexValue rest (acc * 16 ^ length (hexNat v) + v)"
proof (induction v arbitrary: rest acc rule: hexNat.induct)
  case (1 n)
  show ?case
  proof (cases "n \<le> 0")
    case True
    then have "n = 0" using 1 by simp
    then show ?thesis by (simp add: hexNat.simps [of 0] lowerHex_def)
  next
    case False
    then have ih: "lowerHex (hexNat (n div 16))"
      "\<And>rest acc. hexValue (hexNat (n div 16) @ rest) acc = hexValue rest (acc * 16 ^ length (hexNat (n div 16)) + n div 16)"
      using 1 by simp_all
    have eq: "hexNat n = hexNat (n div 16) @ [hexDigit (n mod 16)]"
      using False by (subst hexNat.simps) simp
    have d: "unhex (hexDigit (n mod 16)) = Some (n mod 16)" by (simp add: unhex_hexDigit)
    have "lowerHex (hexNat n)"
      using ih(1) unfolding eq lowerHex_def
      by (auto intro!: exI [of _ "n mod 16"])
    moreover have "hexValue (hexNat n @ rest) acc = hexValue rest (acc * 16 ^ length (hexNat n) + n)"
      unfolding eq using d by (simp add: ih(2) algebra_simps)
    ultimately show ?thesis by simp
  qed
qed

lemma hexNat_length: "0 \<le> v \<Longrightarrow> v < 16 ^ k \<Longrightarrow> length (hexNat v) \<le> k"
proof (induction v arbitrary: k rule: hexNat.induct)
  case (1 n)
  show ?case
  proof (cases "n \<le> 0")
    case True
    then show ?thesis by (simp add: hexNat.simps [of n])
  next
    case False
    then obtain j where k: "k = Suc j" using 1(3) by (cases k) auto
    have "n div 16 < 16 ^ j" using 1(3) k by auto
    moreover have "0 \<le> n div 16" using 1(2) by simp
    ultimately have "length (hexNat (n div 16)) \<le> j" using 1(1) False by simp
    then show ?thesis using False k by (subst hexNat.simps) simp
  qed
qed


lemma lowerHex_Cons: "lowerHex (c # cs) = ((\<exists>d. 0 \<le> d \<and> d < 16 \<and> c = hexDigit d) \<and> lowerHex cs)"
  by (simp add: lowerHex_def)

lemma lowerHex_append: "lowerHex (xs @ ys) = (lowerHex xs \<and> lowerHex ys)"
  by (auto simp: lowerHex_def)

lemma byte_of_digits:
  assumes "0 \<le> x" "x < 16" "0 \<le> y" "y < 16"
  shows "uint (word_of_int (16 * x + y) :: byte) div 16 = x \<and> uint (word_of_int (16 * x + y) :: byte) mod 16 = y"
proof -
  have "0 \<le> 16 * x + y" "16 * x + y < 256" using assms by simp_all
  then have "uint (word_of_int (16 * x + y) :: byte) = 16 * x + y"
    unfolding uint_word_of_int_eq by (simp add: take_bit_int_eq_self)
  then show ?thesis using assms by simp
qed

lemma fromHex_lowerHex:
  "lowerHex h \<Longrightarrow> even (length h) \<Longrightarrow> toHex (fromHex h) = h \<and> length (fromHex h) = length h div 2"
proof (induction h rule: fromHex.induct)
  case (1 a b rest)
  from 1(2) obtain x y where x: "0 \<le> x" "x < 16" "a = hexDigit x" and y: "0 \<le> y" "y < 16" "b = hexDigit y"
    and r: "lowerHex rest"
    by (auto simp: lowerHex_Cons)
  have ua: "unhex a = Some x" and ub: "unhex b = Some y" using x y by (simp_all add: unhex_hexDigit)
  have ih: "toHex (fromHex rest) = rest \<and> length (fromHex rest) = length rest div 2"
    using 1(1) [OF ua ub r] 1(3) by simp
  show ?case using ih ua ub byte_of_digits [OF x(1,2) y(1,2)] x(3) y(3)
    by (simp add: toHex_Cons)
next
  case "2_1"
  then show ?case by (simp add: toHex_Nil)
next
  case "2_2"
  then show ?case by simp
qed

lemma hexValue_zeros: "hexValue (replicate k (CHR ''0'') @ h) 0 = hexValue h 0"
  by (induction k) (simp_all add: unhex_def)

lemma lowerHex_zeros: "lowerHex (replicate k (CHR ''0''))"
  unfolding lowerHex_def by (auto intro!: exI [of _ 0] simp: hexDigit_def char_of_def)

lemma bigIntToString16_props:
  assumes "0 \<le> v" "v < 16 ^ 64"
  shows "lowerHex (bigIntToString16 v) \<and> hexValue (bigIntToString16 v) 0 = Some v
         \<and> length (bigIntToString16 v) \<le> 64 \<and> bigIntToString16 v \<noteq> []"
proof (cases "v = 0")
  case True
  have "lowerHex ''0''" using lowerHex_zeros [of 1] by simp
  then show ?thesis using True by (simp add: bigIntToString16_def unhex_def)
next
  case False
  then have pos: "0 < v" using assms by simp
  have e: "bigIntToString16 v = hexNat v" using pos by (simp add: bigIntToString16_def)
  have "hexValue (hexNat v @ []) 0 = hexValue [] (0 * 16 ^ length (hexNat v) + v)"
    using hexNat_props [OF assms(1)] by blast
  then have hv: "hexValue (hexNat v) 0 = Some v" by simp
  have ne: "hexNat v \<noteq> []" using pos by (subst hexNat.simps) simp
  show ?thesis unfolding e using hexNat_props [OF assms(1)] hexNat_length [OF assms] hv ne by simp
qed

lemma lowS_encode:
  assumes "0 \<le> v" "v < 2 ^ 256"
  shows "length (fromHex (padStart 64 (CHR ''0'') (bigIntToString16 v))) = 32
         \<and> bufferToBigInt (fromHex (padStart 64 (CHR ''0'') (bigIntToString16 v))) = Inr v"
proof -
  let ?h = "bigIntToString16 v"
  let ?p = "padStart 64 (CHR ''0'') ?h"
  have v: "v < 16 ^ 64" using assms(2) by simp
  note p = bigIntToString16_props [OF assms(1) v]
  have len: "length ?p = 64" using p by (simp add: padStart_def)
  have low: "lowerHex ?p" using p by (simp add: padStart_def lowerHex_append lowerHex_zeros)
  have val: "hexValue ?p 0 = Some v" using p by (simp add: padStart_def hexValue_zeros)
  have ne: "?p \<noteq> []" using len by auto
  have rt: "toHex (fromHex ?p) = ?p" "length (fromHex ?p) = 32"
    using fromHex_lowerHex [OF low] len by simp_all
  show ?thesis using rt val ne by (simp add: bufferToBigInt_def bigIntFromHex_def)
qed

subsection \<open>Normalisation of r and s\<close>

lemma slice_take: "n \<le> length buf \<Longrightarrow> slice buf (Some 0) (Some (int n)) = take n buf"
  by (auto simp: slice_def adjustOffset_def Let_def)

lemma normalizeTo32Bytes_length: "length (normalizeTo32Bytes buf) = 32"
proof -
  have "\<And>b::buffer. 32 \<le> length b \<Longrightarrow> length (slice b (Some 0) (Some 32)) = 32"
    using slice_take [of 32] by simp
  then show ?thesis by (simp add: normalizeTo32Bytes_def Let_def)
qed

lemma bufferToBigInt_32:
  assumes "length s = 32"
  shows "\<exists>v. bufferToBigInt s = Inr v \<and> 0 \<le> v \<and> v < 2 ^ 256"
proof -
  obtain b bs where s: "s = b # bs" using assms by (cases s) auto
  have ne: "toHex s \<noteq> []" by (simp add: s toHex_Cons)
  have "0 \<le> beAcc s 0 \<and> beAcc s 0 < (0 + 1) * 256 ^ length s"
    by (rule beAcc_bounds) simp
  then have "0 \<le> beAcc s 0" "beAcc s 0 < 2 ^ 256" using assms by simp_all
  then show ?thesis using ne by (simp add: bufferToBigInt_def bigIntFromHex_def hexValue_toHex)
qed

lemma hexDigit_eval:
  "hexDigit 0 = CHR ''0''" "hexDigit 1 = CHR ''1''" "hexDigit 2 = CHR ''2''" "hexDigit 3 = CHR ''3''"
  "hexDigit 4 = CHR ''4''" "hexDigit 5 = CHR ''5''" "hexDigit 6 = CHR ''6''" "hexDigit 7 = CHR ''7''"
  "hexDigit 8 = CHR ''8''" "hexDigit 9 = CHR ''9''" "hexDigit 10 = CHR ''a''" "hexDigit 11 = CHR ''b''"
  "hexDigit 12 = CHR ''c''" "hexDigit 13 = CHR ''d''" "hexDigit 14 = CHR ''e''" "hexDigit 15 = CHR ''f''"
  by (simp_all add: hexDigit_def char_of_def)

lemma replicate_numeral_eval: "replicate (numeral k) x = x # replicate (pred_numeral k) x"
  by (simp add: numeral_eq_Suc)

lemmas eval_buf = replicate_numeral_eval byteAt_def addNum_def adjustOffset_def slice_def sliceFrom_def Let_def
lemmas eval_hex = toHex_Cons toHex_Nil hexDigit_eval unhex_def padStart_def bigIntToString16_def
  bigIntFromHex_def bufferToBigInt_def hexNat.simps
lemmas eval_der = parseLength_def parseLengthBytes_def derIntegers_def parseDerSignature_def
  normalizeTo32Bytes_def normalizeLowS_def curveOrder_def halfN_def

lemma normalizeTo32Bytes_strip:
  "length buf = 33 \<Longrightarrow> hd buf = 0 \<Longrightarrow> normalizeTo32Bytes buf = tl buf"
proof -
  assume l: "length buf = 33" and h: "hd buf = 0"
  then obtain b bs where b: "buf = b # bs" by (cases buf) auto
  have "slice bs (Some 0) (Some 32) = take 32 bs" using slice_take [of 32 bs] l b by simp
  then show ?thesis using l h b
    by (simp add: normalizeTo32Bytes_def Let_def byteAt_def sliceFrom_def adjustOffset_def)
qed

lemma normalizeTo32Bytes_pad:
  "length buf < 32 \<Longrightarrow> normalizeTo32Bytes buf = replicate (32 - length buf) 0 @ buf"
  by (simp add: normalizeTo32Bytes_def Let_def)

lemma half_order: "curveOrder = 2 * halfN + 1"
  by (simp add: curveOrder_def halfN_def)

lemma order_bound: "0 < halfN \<and> curveOrder < 2 ^ 256"
  by (simp add: curveOrder_def halfN_def)

lemma normalizeLowS_32:
  assumes len: "length s32 = 32" and big: "bufferToBigInt s32 = Inr sBig" and rng: "sBig \<le> curveOrder"
    and res: "normalizeLowS s32 = Inr s"
  shows "length s = 32 \<and> bufferToBigInt s = Inr (if halfN < sBig then curveOrder - sBig else sBig)
         \<and> (if halfN < sBig then curveOrder - sBig else sBig) \<le> halfN
         \<and> (sBig \<le> halfN \<longrightarrow> s = s32) \<and> normalizeLowS s = Inr s"
proof (cases "halfN < sBig")
  case False
  then have "s = s32" using res big by (simp add: normalizeLowS_def)
  then show ?thesis using False len big by (simp add: normalizeLowS_def)
next
  case True
  let ?v = "curveOrder - sBig"
  have s: "s = fromHex (padStart 64 (CHR ''0'') (bigIntToString16 ?v))"
    using res big True by (simp add: normalizeLowS_def)
  have v: "0 \<le> ?v" "?v < 2 ^ 256" "?v \<le> halfN"
    using rng True half_order order_bound by simp_all
  have enc: "length s = 32" "bufferToBigInt s = Inr ?v"
    using lowS_encode [OF v(1,2)] s by simp_all
  have "normalizeLowS s = Inr s" using enc(2) v(3) by (simp add: normalizeLowS_def)
  then show ?thesis using True enc v(3) by simp
qed

lemma fromHex_zeros_minus:
  "fromHex (replicate z (CHR ''0'') @ CHR ''-'' # rest) = replicate (z div 2) 0"
proof (induction z rule: nat_less_induct)
  case (1 z)
  consider "z = 0" | "z = 1" | k where "z = Suc (Suc k)"
    by (cases z rule: nat.exhaust) (auto, metis not0_implies_Suc)
  then show ?case
  proof cases
    case 1
    then show ?thesis by (cases rest) (simp_all add: unhex_def)
  next
    case 2
    then show ?thesis by (simp add: unhex_def)
  next
    case 3
    have "fromHex (replicate k (CHR ''0'') @ CHR ''-'' # rest) = replicate (k div 2) 0"
      using 1 3 by simp
    then show ?thesis using 3 by (simp add: unhex_def)
  qed
qed

lemma beAcc_zeros: "beAcc (replicate k 0) 0 = 0"
  by (induction k) simp_all

lemma bufferToBigInt_zeros: "0 < k \<Longrightarrow> bufferToBigInt (replicate k 0) = Inr 0"
proof -
  assume "0 < k"
  then obtain j where "k = Suc j" by (cases k) auto
  then have "toHex (replicate k 0) \<noteq> []" by (simp add: toHex_Cons)
  then show ?thesis by (simp add: bufferToBigInt_def bigIntFromHex_def hexValue_toHex beAcc_zeros)
qed

lemma normalizeLowS_above_order:
  assumes big: "bufferToBigInt s32 = Inr sBig" and lt: "sBig < 2 ^ 256" and above: "curveOrder < sBig"
  shows "\<exists>k. 0 < k \<and> normalizeLowS s32 = Inr (replicate k 0)"
proof -
  let ?m = "sBig - curveOrder"
  have m: "0 \<le> ?m" "?m < 16 ^ 56" using above lt by (simp_all add: curveOrder_def)
  have len: "length (hexNat ?m) \<le> 56" by (rule hexNat_length [OF m])
  have neg: "curveOrder - sBig < 0" "curveOrder - sBig \<noteq> 0" using above by simp_all
  have str: "bigIntToString16 (curveOrder - sBig) = CHR ''-'' # hexNat ?m"
    using neg by (simp add: bigIntToString16_def)
  have pad: "padStart 64 (CHR ''0'') (CHR ''-'' # hexNat ?m)
             = replicate (63 - length (hexNat ?m)) (CHR ''0'') @ CHR ''-'' # hexNat ?m"
    by (simp add: padStart_def)
  have high: "halfN < sBig" using above order_bound half_order by simp
  have "normalizeLowS s32 = Inr (replicate ((63 - length (hexNat ?m)) div 2) 0)"
    using big high by (simp add: normalizeLowS_def str pad fromHex_zeros_minus)
  moreover have "0 < (63 - length (hexNat ?m)) div 2" using len by simp
  ultimately show ?thesis by blast
qed

lemma normalizeLowS_general:
  assumes len: "length s32 = 32" and big: "bufferToBigInt s32 = Inr sBig"
    and res: "normalizeLowS s32 = Inr sOut"
  shows "\<exists>sLow. bufferToBigInt sOut = Inr sLow \<and> sLow \<le> halfN \<and> normalizeLowS sOut = Inr sOut
          \<and> (sBig \<le> halfN \<longrightarrow> sOut = s32)
          \<and> (sBig \<le> curveOrder \<longrightarrow> length sOut = 32 \<and> (halfN < sBig \<longrightarrow> sLow = curveOrder - sBig))"
proof (cases "sBig \<le> curveOrder")
  case True
  from normalizeLowS_32 [OF len big True res] show ?thesis by auto
next
  case False
  from bufferToBigInt_32 [OF len] big have lt: "sBig < 2 ^ 256" by auto
  from normalizeLowS_above_order [OF big lt] False res
  obtain k where k: "0 < k" "sOut = replicate k 0" by auto
  have z: "bufferToBigInt sOut = Inr 0" using k bufferToBigInt_zeros by simp
  have h: "0 \<le> halfN" using order_bound by simp
  have "normalizeLowS sOut = Inr sOut" using z h by (simp add: normalizeLowS_def)
  moreover have "\<not> sBig \<le> halfN" using False half_order order_bound by simp
  ultimately show ?thesis using z h False by auto
qed

lemma beAcc_pad: "beAcc (replicate k 0 @ b) 0 = beAcc b 0"
  by (induction k) simp_all

lemma bufferToBigInt_value: "bufferToBigInt b = Inr v \<Longrightarrow> b \<noteq> [] \<and> v = beAcc b 0"
  by (auto simp: bufferToBigInt_def bigIntFromHex_def hexValue_toHex toHex_Nil split: if_splits)

lemma bufferToBigInt_beAcc: "b \<noteq> [] \<Longrightarrow> bufferToBigInt b = Inr (beAcc b 0)"
proof -
  assume "b \<noteq> []"
  then have "toHex b \<noteq> []" by (cases b) (simp_all add: toHex_Cons)
  then show ?thesis by (simp add: bufferToBigInt_def bigIntFromHex_def hexValue_toHex)
qed

lemma normalizeTo32Bytes_value:
  assumes v: "bufferToBigInt raw = Inr v" and le: "length raw \<le> 33" and hd: "length raw = 33 \<longrightarrow> hd raw = 0"
  shows "bufferToBigInt (normalizeTo32Bytes raw) = Inr v"
proof -
  from bufferToBigInt_value [OF v] have ne: "raw \<noteq> []" and val: "v = beAcc raw 0" by simp_all
  consider "length raw < 32" | "length raw = 32" | "length raw = 33" using le by linarith
  then show ?thesis
  proof cases
    case 1
    then have n: "normalizeTo32Bytes raw = replicate (32 - length raw) 0 @ raw"
      by (rule normalizeTo32Bytes_pad)
    have "replicate (32 - length raw) 0 @ raw \<noteq> []" using ne by simp
    from bufferToBigInt_beAcc [OF this] show ?thesis unfolding n by (simp add: beAcc_pad val)
  next
    case 2
    have "slice raw (Some 0) (Some 32) = take 32 raw" using slice_take [of 32 raw] 2 by simp
    then have "normalizeTo32Bytes raw = raw" using 2 by (simp add: normalizeTo32Bytes_def Let_def)
    then show ?thesis using v by simp
  next
    case 3
    then have h: "hd raw = 0" using hd by simp
    have n: "normalizeTo32Bytes raw = tl raw" by (rule normalizeTo32Bytes_strip [OF 3 h])
    obtain t where t: "raw = 0 # t" using ne h by (cases raw) auto
    have "t \<noteq> []" using 3 t by auto
    from bufferToBigInt_beAcc [OF this] show ?thesis unfolding n by (simp add: t val)
  qed
qed

lemma short_length_byte:
  "n \<le> 127 \<Longrightarrow> (of_nat n :: byte) \<le> 0x7f \<and> uint (of_nat n :: byte) = int n"
proof -
  assume n: "n \<le> 127"
  then have u: "unat (of_nat n :: byte) = n" by (simp add: unat_of_nat take_bit_nat_eq_self)
  then have "uint (of_nat n :: byte) = int n" by (simp add: uint_nat)
  moreover have "(of_nat n :: byte) \<le> 0x7f" using u n by (simp add: word_le_nat_alt)
  ultimately show ?thesis by simp
qed

lemma derIntegers_der:
  assumes "seqLen \<le> 0x7f" and "length rB \<le> 127" and "length sB \<le> 127"
  shows "derIntegers (0x30 # seqLen # 0x02 # of_nat (length rB) # rB @ 0x02 # of_nat (length sB) # sB)
         = Inr (rB, sB)"
proof -
  let ?d = "0x30 # seqLen # 0x02 # of_nat (length rB) # rB @ 0x02 # of_nat (length sB) # sB"
  note lr = short_length_byte [OF assms(2)]
  note ls = short_length_byte [OF assms(3)]
  have b0: "byteAt ?d (Some 0) = Some 0x30" by (simp add: byteAt_def)
  have b1: "parseLengthBytes ?d (Some 1) = Inr 1" using assms(1) by (simp add: parseLengthBytes_def byteAt_def)
  have b2: "byteAt ?d (Some 2) = Some 0x02" by (simp add: byteAt_def)
  have b3: "parseLength ?d (Some 3) = Inr (Some (int (length rB)))" "parseLengthBytes ?d (Some 3) = Inr 1"
    using lr by (simp_all add: parseLength_def parseLengthBytes_def byteAt_def)
  have r: "slice ?d (Some 4) (Some (4 + int (length rB))) = rB"
    by (simp add: slice_def adjustOffset_def Let_def nat_add_distrib)
  have b4: "byteAt ?d (Some (4 + int (length rB))) = Some 0x02"
    by (simp add: byteAt_def nat_add_distrib nth_append)
  have b5: "byteAt ?d (Some (4 + int (length rB) + 1)) = Some (of_nat (length sB))"
    by (simp add: byteAt_def nat_add_distrib nth_append)
  have b6: "parseLength ?d (Some (4 + int (length rB) + 1)) = Inr (Some (int (length sB)))"
    "parseLengthBytes ?d (Some (4 + int (length rB) + 1)) = Inr 1"
    using ls b5 by (simp_all add: parseLength_def parseLengthBytes_def)
  have "6 + length rB = Suc (Suc (Suc (Suc (length rB + 2))))" by simp
  then have "drop (6 + length rB) ?d = drop (length rB + 2) (rB @ 0x02 # of_nat (length sB) # sB)"
    by (simp only: drop_Suc_Cons)
  then have dr: "drop (6 + length rB) ?d = sB" by simp
  have s: "slice ?d (Some (4 + int (length rB) + 1 + 1)) (Some (4 + int (length rB) + 1 + 1 + int (length sB))) = sB"
    using dr by (simp add: slice_def adjustOffset_def Let_def nat_add_distrib)
  show ?thesis
    unfolding derIntegers_def using b0 b1 b2 b3 r b4 b6 s
    by (simp add: Let_def addNum_def)
qed

text \<open>
  Claim C1. Let \<open>parseDerSignature\<close> accept a DER signature whose INTEGER s is the DER encoding
  of a value below the curve order, as the s of every ECDSA signature is: at most 33 bytes,
  the first of 33 being a zero. Then the returned r and s are exactly 32 bytes each. The
  leading zero of a 33-byte INTEGER is stripped and a shorter one is left-padded with zeros,
  which keeps the value of a DER-encoded r. The value of the returned s is
  \<open>curveOrder - s\<close> if s exceeds half the order and s otherwise, so it never exceeds half the
  order; an s of at most half the order is returned as its 32 bytes; and the low-S step
  applied to the returned s leaves it unchanged. The raw r and s are the contents of the
  two INTEGER fields: on SEQUENCE, INTEGER r, INTEGER s with one-byte lengths the walk
  returns the bytes of r and of s.
\<close>

theorem parseDerSignature_low_s:
  assumes acc: "parseDerSignature der = Inr (rOut, sOut)"
    and raw: "derIntegers der = Inr (rRaw, sRaw)"
    and sLen: "length sRaw \<le> 33" and sLead: "length sRaw = 33 \<longrightarrow> hd sRaw = 0"
    and sVal: "bufferToBigInt sRaw = Inr sVal" and sRange: "sVal < curveOrder"
  shows "length rOut = 32 \<and> length sOut = 32
       \<and> (length rRaw = 33 \<and> hd rRaw = 0 \<longrightarrow> rOut = tl rRaw)
       \<and> (length rRaw < 32 \<longrightarrow> rOut = replicate (32 - length rRaw) 0 @ rRaw)
       \<and> (\<forall>rVal. length rRaw \<le> 33 \<and> (length rRaw = 33 \<longrightarrow> hd rRaw = 0) \<and> bufferToBigInt rRaw = Inr rVal
             \<longrightarrow> bufferToBigInt rOut = Inr rVal)
       \<and> (length sRaw = 33 \<longrightarrow> normalizeTo32Bytes sRaw = tl sRaw)
       \<and> (length sRaw < 32 \<longrightarrow> normalizeTo32Bytes sRaw = replicate (32 - length sRaw) 0 @ sRaw)
       \<and> bufferToBigInt sOut = Inr (if halfN < sVal then curveOrder - sVal else sVal)
       \<and> (if halfN < sVal then curveOrder - sVal else sVal) \<le> halfN
       \<and> (sVal \<le> halfN \<longrightarrow> sOut = normalizeTo32Bytes sRaw)
       \<and> normalizeLowS sOut = Inr sOut
       \<and> (\<forall>seqLen rB sB. seqLen \<le> 0x7f \<and> length rB \<le> 127 \<and> length sB \<le> 127 \<longrightarrow>
             derIntegers (0x30 # seqLen # 0x02 # of_nat (length rB) # rB @ 0x02 # of_nat (length sB) # sB)
             = Inr (rB, sB))"
proof -
  let ?s32 = "normalizeTo32Bytes sRaw"
  from acc raw have low: "normalizeLowS ?s32 = Inr sOut" and r: "rOut = normalizeTo32Bytes rRaw"
    by (auto simp: parseDerSignature_def split: sum.splits)
  have len: "length ?s32 = 32" by (rule normalizeTo32Bytes_length)
  have big: "bufferToBigInt ?s32 = Inr sVal" by (rule normalizeTo32Bytes_value [OF sVal sLen sLead])
  have rng: "sVal \<le> curveOrder" using sRange by simp
  note main = normalizeLowS_32 [OF len big rng low]
  have rfacts: "length rOut = 32" "length rRaw = 33 \<and> hd rRaw = 0 \<longrightarrow> rOut = tl rRaw"
    "length rRaw < 32 \<longrightarrow> rOut = replicate (32 - length rRaw) 0 @ rRaw"
    using r normalizeTo32Bytes_length normalizeTo32Bytes_strip normalizeTo32Bytes_pad by simp_all
  have rval: "\<forall>rVal. length rRaw \<le> 33 \<and> (length rRaw = 33 \<longrightarrow> hd rRaw = 0) \<and> bufferToBigInt rRaw = Inr rVal
             \<longrightarrow> bufferToBigInt rOut = Inr rVal"
    using normalizeTo32Bytes_value r by blast
  have sfacts: "length sRaw = 33 \<longrightarrow> ?s32 = tl sRaw"
    "length sRaw < 32 \<longrightarrow> ?s32 = replicate (32 - length sRaw) 0 @ sRaw"
    using normalizeTo32Bytes_strip normalizeTo32Bytes_pad sLead by simp_all
  have walk: "\<forall>seqLen rB sB. seqLen \<le> 0x7f \<and> length rB \<le> 127 \<and> length sB \<le> 127 \<longrightarrow>
             derIntegers (0x30 # seqLen # 0x02 # of_nat (length rB) # rB @ 0x02 # of_nat (length sB) # sB)
             = Inr (rB, sB)"
    using derIntegers_der by blast
  show ?thesis using main rfacts rval sfacts walk by blast
qed

theorem parseDerSignature_low_s_witness:
  "parseDerSignature
     [0x30, 0x27, 0x02, 0x02, 0x12, 0x34, 0x02, 0x21, 0x00,
      0xFF, 0, 0, 0, 0, 0, 0, 0, 0, 0, 0, 0, 0, 0, 0, 0, 0, 0, 0, 0, 0, 0, 0, 0, 0, 0, 0, 0, 0, 0, 0, 0]
   = Inr ([0, 0, 0, 0, 0, 0, 0, 0, 0, 0, 0, 0, 0, 0, 0, 0, 0, 0, 0, 0, 0, 0, 0, 0, 0, 0, 0, 0, 0, 0, 0x12, 0x34],
          [0x00, 0xFF, 0xFF, 0xFF, 0, 0, 0, 0, 0xFF, 0xFF, 0xFF, 0xFF, 0xFF, 0xFF, 0xFF, 0xFF,
           0xBC, 0xE6, 0xFA, 0xAD, 0xA7, 0x17, 0x9E, 0x84, 0xF3, 0xB9, 0xCA, 0xC2, 0xFC, 0x63, 0x25, 0x51])
   \<and> derIntegers
     [0x30, 0x27, 0x02, 0x02, 0x12, 0x34, 0x02, 0x21, 0x00,
      0xFF, 0, 0, 0, 0, 0, 0, 0, 0, 0, 0, 0, 0, 0, 0, 0, 0, 0, 0, 0, 0, 0, 0, 0, 0, 0, 0, 0, 0, 0, 0, 0]
     = Inr ([0x12, 0x34], 0x00 # 0xFF # replicate 31 0)
   \<and> bufferToBigInt (0x00 # 0xFF # replicate 31 0)
       = Inr 0xFF00000000000000000000000000000000000000000000000000000000000000
   \<and> 0xFF00000000000000000000000000000000000000000000000000000000000000 < curveOrder
   \<and> halfN < 0xFF00000000000000000000000000000000000000000000000000000000000000
   \<and> bufferToBigInt [0, 0, 0, 0, 0, 0, 0, 0, 0, 0, 0, 0, 0, 0, 0, 0, 0, 0, 0, 0, 0, 0, 0, 0, 0, 0, 0, 0, 0, 0, 0x12, 0x34]
       = Inr 0x1234
   \<and> bufferToBigInt
         [0x00, 0xFF, 0xFF, 0xFF, 0, 0, 0, 0, 0xFF, 0xFF, 0xFF, 0xFF, 0xFF, 0xFF, 0xFF, 0xFF,
           0xBC, 0xE6, 0xFA, 0xAD, 0xA7, 0x17, 0x9E, 0x84, 0xF3, 0xB9, 0xCA, 0xC2, 0xFC, 0x63, 0x25, 0x51]
       = Inr (curveOrder - 0xFF00000000000000000000000000000000000000000000000000000000000000)
   \<and> curveOrder - 0xFF00000000000000000000000000000000000000000000000000000000000000 \<le> halfN
   \<and> normalizeLowS
         [0x00, 0xFF, 0xFF, 0xFF, 0, 0, 0, 0, 0xFF, 0xFF, 0xFF, 0xFF, 0xFF, 0xFF, 0xFF, 0xFF,
           0xBC, 0xE6, 0xFA, 0xAD, 0xA7, 0x17, 0x9E, 0x84, 0xF3, 0xB9, 0xCA, 0xC2, 0xFC, 0x63, 0x25, 0x51]
       = Inr [0x00, 0xFF, 0xFF, 0xFF, 0, 0, 0, 0, 0xFF, 0xFF, 0xFF, 0xFF, 0xFF, 0xFF, 0xFF, 0xFF,
           0xBC, 0xE6, 0xFA, 0xAD, 0xA7, 0x17, 0x9E, 0x84, 0xF3, 0xB9, 0xCA, 0xC2, 0xFC, 0x63, 0x25, 0x51]"
  (is "parseDerSignature ?D = Inr (?R, ?S) \<and> derIntegers ?D = Inr (?rRaw, ?sRaw) \<and> bufferToBigInt ?sRaw = Inr ?sv
       \<and> ?sv < curveOrder \<and> halfN < ?sv \<and> bufferToBigInt ?R = Inr ?rv
       \<and> bufferToBigInt ?S = Inr ?v \<and> ?v \<le> halfN \<and> normalizeLowS ?S = Inr ?S")
proof -
  have e: "parseDerSignature ?D = Inr (?R, ?S)"
    by (simp add: eval_buf eval_hex eval_der)
  have raw: "derIntegers ?D = Inr (?rRaw, ?sRaw)"
    by (simp add: eval_buf eval_der)
  have sl: "length ?sRaw \<le> 33" "length ?sRaw = 33 \<longrightarrow> hd ?sRaw = 0" by simp_all
  have sv: "bufferToBigInt ?sRaw = Inr ?sv"
    by (simp add: eval_buf eval_hex)
  have rv: "bufferToBigInt ?rRaw = Inr ?rv"
    by (simp add: eval_buf eval_hex)
  have rl: "length ?rRaw \<le> 33 \<and> (length ?rRaw = 33 \<longrightarrow> hd ?rRaw = 0)" by simp
  have rng: "?sv < curveOrder" "halfN < ?sv" by (simp_all add: curveOrder_def halfN_def)
  note T = parseDerSignature_low_s [OF e raw sl sv rng(1)]
  from T rl rv have r: "bufferToBigInt ?R = Inr ?rv" by blast
  from T rng(2) have s: "bufferToBigInt ?S = Inr ?v" "?v \<le> halfN" "normalizeLowS ?S = Inr ?S"
    by simp_all
  show ?thesis using e raw sv rng r s by blast
qed

text \<open>
  The bound on s cannot be dropped. For an s above the curve order \<open>curveOrder - s\<close> is
  negative, its text starts with a minus sign, and \<^verbatim>\<open>Buffer.from(..., 'hex')\<close> stops decoding
  at the pair that holds the sign: for s = 2^256 - 1 the returned s has 3 bytes.
\<close>

lemma parseDerSignature_s_above_order: "parseDerSignature
   [0x30, 0x26, 0x02, 0x01, 0x01, 0x02, 0x21, 0x00,
    0xFF, 0xFF, 0xFF, 0xFF, 0xFF, 0xFF, 0xFF, 0xFF, 0xFF, 0xFF, 0xFF, 0xFF, 0xFF, 0xFF, 0xFF, 0xFF,
    0xFF, 0xFF, 0xFF, 0xFF, 0xFF, 0xFF, 0xFF, 0xFF, 0xFF, 0xFF, 0xFF, 0xFF, 0xFF, 0xFF, 0xFF, 0xFF]
   = Inr ([0, 0, 0, 0, 0, 0, 0, 0, 0, 0, 0, 0, 0, 0, 0, 0, 0, 0, 0, 0, 0, 0, 0,
       0, 0, 0, 0, 0, 0, 0, 0, 1], [0, 0, 0])"
  by (simp add: eval_buf eval_hex eval_der)

section \<open>Round trip of the public key\<close>

lemma fromHex_toHex: "fromHex (toHex bs) = bs"
proof (induction bs)
  case Nil
  then show ?case by (simp add: toHex_Nil)
next
  case (Cons b bs)
  have h: "unhex (hexDigit (uint b div 16)) = Some (uint b div 16)"
    using uint_div16 [of b] by (simp add: unhex_hexDigit)
  have l: "unhex (hexDigit (uint b mod 16)) = Some (uint b mod 16)"
    by (simp add: unhex_hexDigit)
  have "16 * (uint b div 16) + uint b mod 16 = uint b" by simp
  then have "(word_of_int (16 * (uint b div 16) + uint b mod 16) :: byte) = b" by simp
  then show ?case using Cons.IH h l by (simp add: toHex_Cons)
qed

lemma toHex_append: "toHex (a @ b) = toHex a @ toHex b"
  by (simp add: toHex_def)

lemma spki_bytes:
  assumes "length xy = 64" and "publicKeyHex pk = toHex (0x04 # xy)"
  shows "buildSubjectPublicKeyInfo pk
         = [0x30, 0x59, 0x30, 0x13, 0x06, 0x07, 0x2a, 0x86, 0x48, 0xce, 0x3d, 0x02, 0x01,
            0x06, 0x08, 0x2a, 0x86, 0x48, 0xce, 0x3d, 0x03, 0x01, 0x07, 0x03, 0x42, 0x00, 0x04] @ xy"
  using assms by (simp add: buildSubjectPublicKeyInfo_def fromHex_toHex algId_def encodeLength_def Let_def)

lemma spki_oid:
  assumes "length xy = 64"
  shows "findEcOid (spkiPrefix @ xy) = Some 4"
proof -
  define P where "P = (\<lambda>i. slice (spkiPrefix @ xy) (Some i) (Some (i + int (length ecPubKeyOid))) = ecPubKeyOid)"
  have p: "\<not> P 0" "\<not> P 1" "\<not> P 2" "\<not> P 3" "P 4"
    using assms by (simp_all add: P_def spkiPrefix_def ecPubKeyOid_def slice_def adjustOffset_def Let_def)
  have e: "int (length (spkiPrefix @ xy)) - int (length ecPubKeyOid) - 1 = 81"
    using assms by (simp add: spkiPrefix_def ecPubKeyOid_def)
  have "findEcOid (spkiPrefix @ xy) = List.find P [0 .. 81]"
    unfolding findEcOid_def P_def e by (rule refl)
  also have "[0 .. 81] = 0 # 1 # 2 # 3 # 4 # [5 .. (81::int)]"
    by (simp add: upto_rec1)
  also have "List.find P (0 # 1 # 2 # 3 # 4 # [5 .. 81]) = Some 4"
    using p by simp
  finally show ?thesis .
qed

lemma spki_scan:
  assumes "length xy = 64"
  shows "bitStringScan (spkiPrefix @ xy) 4
         = Some \<lparr> publicKeyHex = toHex (0x04 # xy), pk_x = toHex (take 32 xy), pk_y = toHex (drop 32 xy) \<rparr>"
proof -
  let ?d = "spkiPrefix @ xy"
  note ev = spkiPrefix_def bitStringAt_def byteAt_def slice_def adjustOffset_def Let_def
  have n: "bitStringAt ?d 13 = None" "bitStringAt ?d 14 = None" "bitStringAt ?d 15 = None"
    "bitStringAt ?d 16 = None" "bitStringAt ?d 17 = None" "bitStringAt ?d 18 = None"
    "bitStringAt ?d 19 = None" "bitStringAt ?d 20 = None" "bitStringAt ?d 21 = None"
    "bitStringAt ?d 22 = None"
    using assms by (simp_all add: ev)
  have h: "bitStringAt ?d 23
     = Some \<lparr> publicKeyHex = toHex (0x04 # xy), pk_x = toHex (take 32 xy), pk_y = toHex (drop 32 xy) \<rparr>"
    using assms by (simp add: ev)
  have e: "[4 + int (length ecPubKeyOid) .. int (length ?d) - 67 - 1] = [13, 14, 15, 16, 17, 18, 19, 20, 21, 22, 23]"
    using assms by (simp add: spkiPrefix_def ecPubKeyOid_def upto_rec1)
  have "bitStringScan ?d 4 = firstHit (bitStringAt ?d) [13, 14, 15, 16, 17, 18, 19, 20, 21, 22, 23]"
    unfolding bitStringScan_def e by (rule refl)
  also have "\<dots> = bitStringAt ?d 23"
    using n h by simp
  finally show ?thesis using h by simp
qed

lemma spki_parse:
  assumes "length xy = 64"
  shows "parsePublicKeyFromCert (spkiPrefix @ xy)
         = Some \<lparr> publicKeyHex = toHex (0x04 # xy), pk_x = toHex (take 32 xy), pk_y = toHex (drop 32 xy) \<rparr>"
  using spki_oid [OF assms] spki_scan [OF assms] by (simp add: parsePublicKeyFromCert_def)

text \<open>
  Claim C6. For a 65-byte point 04, x, y in the key's \<^verbatim>\<open>publicKeyHex\<close>,
  \<open>buildSubjectPublicKeyInfo\<close> followed by the certificate parser finds the EC OID at index
  4, and its primary strategy, the BIT STRING scan after the OID, returns the point: the
  hexadecimal x and y it returns decode to the original 64 bytes.
\<close>

theorem spki_round_trip:
  assumes "length xy = 64" and "publicKeyHex pubKey = toHex (0x04 # xy)"
  shows "findEcOid (buildSubjectPublicKeyInfo pubKey) = Some 4
       \<and> bitStringScan (buildSubjectPublicKeyInfo pubKey) 4
         = Some \<lparr> publicKeyHex = toHex (0x04 # xy), pk_x = toHex (take 32 xy), pk_y = toHex (drop 32 xy) \<rparr>
       \<and> parsePublicKeyFromCert (buildSubjectPublicKeyInfo pubKey)
         = Some \<lparr> publicKeyHex = toHex (0x04 # xy), pk_x = toHex (take 32 xy), pk_y = toHex (drop 32 xy) \<rparr>
       \<and> fromHex (toHex (take 32 xy) @ toHex (drop 32 xy)) = xy"
proof -
  have b: "buildSubjectPublicKeyInfo pubKey = spkiPrefix @ xy"
    using spki_bytes [OF assms] by (simp add: spkiPrefix_def)
  have "fromHex (toHex (take 32 xy) @ toHex (drop 32 xy)) = fromHex (toHex (take 32 xy @ drop 32 xy))"
    by (simp only: toHex_append)
  then have r: "fromHex (toHex (take 32 xy) @ toHex (drop 32 xy)) = xy"
    by (simp add: fromHex_toHex)
  show ?thesis
    unfolding b using spki_oid [OF assms(1)] spki_scan [OF assms(1)] r
    by (simp add: parsePublicKeyFromCert_def)
qed

theorem spki_round_trip_witness:
  "parsePublicKeyFromCert
     (buildSubjectPublicKeyInfo
        \<lparr> publicKeyHex = toHex (0x04 # replicate 32 0x11 @ replicate 32 0x22),
          pk_x = toHex (replicate 32 0x11), pk_y = toHex (replicate 32 0x22) \<rparr>)
   = Some \<lparr> publicKeyHex = toHex (0x04 # replicate 32 0x11 @ replicate 32 0x22),
            pk_x = toHex (replicate 32 0x11), pk_y = toHex (replicate 32 0x22) \<rparr>"
  using spki_round_trip [of "replicate 32 0x11 @ replicate 32 0x22"
      "\<lparr> publicKeyHex = toHex (0x04 # replicate 32 0x11 @ replicate 32 0x22),
          pk_x = toHex (replicate 32 0x11), pk_y = toHex (replicate 32 0x22) \<rparr>"]
  by simp

section \<open>Properties of the transport\<close>

lemma byteAt_sw1: "byteAt (p @ [a, b]) (Some (int (length (p @ [a, b])) - 2)) = Some a"
  by (simp add: byteAt_def nth_append)

lemma byteAt_sw2: "byteAt (p @ [a, b]) (Some (int (length (p @ [a, b])) - 1)) = Some b"
  by (simp add: byteAt_def nth_append nat_add_distrib)

lemma slice_payload: "slice (p @ [a, b]) (Some 0) (Some (- 2)) = p"
  by (simp add: slice_def adjustOffset_def Let_def)

lemma sliceFrom_sw: "sliceFrom (p @ [a, b]) (Some (- 2)) = [a, b]"
  by (simp add: sliceFrom_def adjustOffset_def)

lemma transmitRaw_connected:
  "connected st \<Longrightarrow> transmitRaw e st c = (st\<lparr>sent := sent st @ [c]\<rparr>, card e (sent st @ [c]))"
  by (auto simp: transmitRaw_def connected_def)

lemma connected_sent [simp]: "connected (st\<lparr>sent := h\<rparr>) = connected st"
  by (simp add: connected_def)

lemma transmitLoop_terminal:
  "s1 \<noteq> 0x61 \<Longrightarrow> transmitLoop e st (p @ [s1, s2]) = Some (st, Inr (p @ [s1, s2]))"
  by (subst transmitLoop.simps) (simp add: byteAt_sw1 del: length_append)

lemma length_sw: "2 \<le> length (p @ [a, b])"
  by simp

lemma transmitLoop_more:
  "connected st \<Longrightarrow> card e (sent st @ [getResponse x]) = Inr resp \<Longrightarrow>
   transmitLoop e st (p @ [0x61, x]) = transmitLoop e (st\<lparr>sent := sent st @ [getResponse x]\<rparr>) (p @ resp)"
  by (subst transmitLoop.simps)
     (simp add: length_sw byteAt_sw1 byteAt_sw2 slice_payload transmitRaw_connected del: length_append)

lemma transmitLoop_chain:
  assumes "connected st"
    and "\<forall>i < length cs. card e (sent st @ map getResponse (x # map snd (take i cs)))
                           = Inr (fst (cs ! i) @ [0x61, snd (cs ! i)])"
    and "card e (sent st @ map getResponse (x # map snd cs)) = Inr (pf @ [s1, s2])"
    and "s1 \<noteq> 0x61"
  shows "transmitLoop e st (acc @ [0x61, x])
         = Some (st\<lparr>sent := sent st @ map getResponse (x # map snd cs)\<rparr>,
                 Inr (acc @ concat (map fst cs) @ pf @ [s1, s2]))"
  using assms
proof (induction cs arbitrary: st acc x)
  case Nil
  then have "card e (sent st @ [getResponse x]) = Inr (pf @ [s1, s2])" by simp
  from transmitLoop_more [OF Nil(1) this, of acc]
  show ?case using transmitLoop_terminal [OF Nil(4), of e _ "acc @ pf" s2] by simp
next
  case (Cons c cs)
  obtain p x' where c: "c = (p, x')" by (cases c)
  let ?st' = "st\<lparr>sent := sent st @ [getResponse x]\<rparr>"
  have r0: "card e (sent st @ [getResponse x]) = Inr (p @ [0x61, x'])"
    using Cons.prems(2) c by auto
  have step: "transmitLoop e st (acc @ [0x61, x]) = transmitLoop e ?st' ((acc @ p) @ [0x61, x'])"
    using transmitLoop_more [OF Cons.prems(1) r0, of acc] by simp
  have conn: "connected ?st'" using Cons.prems(1) by simp
  have shift: "\<forall>i < length cs. card e (sent ?st' @ map getResponse (x' # map snd (take i cs)))
                           = Inr (fst (cs ! i) @ [0x61, snd (cs ! i)])"
  proof (intro allI impI)
    fix i assume "i < length cs"
    then have "Suc i < length (c # cs)" by simp
    from Cons.prems(2) [rule_format, OF this] show
      "card e (sent ?st' @ map getResponse (x' # map snd (take i cs))) = Inr (fst (cs ! i) @ [0x61, snd (cs ! i)])"
      using c by simp
  qed
  have fin: "card e (sent ?st' @ map getResponse (x' # map snd cs)) = Inr (pf @ [s1, s2])"
    using Cons.prems(3) c by simp
  show ?case
    unfolding step using Cons.IH [OF conn shift fin Cons.prems(4), of "acc @ p"] c by simp
qed

lemma transmitLoop_sent:
  assumes "transmitLoop e st data = Some y"
  shows "\<exists>xs. fst y = st\<lparr>sent := sent st @ map getResponse xs\<rparr>"
  using assms
proof (induction rule: transmitLoop.raw_induct [rotated 1, consumes 1, case_names step])
  case (step loop e st data y)
  show ?case
  proof (cases "2 \<le> length data \<and> byteAt data (Some (int (length data) - 2)) = Some 0x61")
    case False
    then have "y = (st, Inr data)" using step(2) by (auto split: if_splits)
    then show ?thesis by (auto intro: exI [of _ "[]"])
  next
    case True
    let ?x = "case byteAt data (Some (int (length data) - 1)) of None \<Rightarrow> 0 | Some sw2 \<Rightarrow> sw2"
    show ?thesis
    proof (cases "readerPresent st \<and> protocol st \<noteq> None")
      case False
      then have "y = (st, Inl ''Not connected'')"
        using step(2) True by (auto simp: transmitRaw_def)
      then show ?thesis by (auto intro: exI [of _ "[]"])
    next
      case conn: True
      let ?st' = "st\<lparr>sent := sent st @ [getResponse ?x]\<rparr>"
      have raw: "transmitRaw e st (getResponse ?x) = (?st', card e (sent st @ [getResponse ?x]))"
        using conn by (auto simp: transmitRaw_def)
      show ?thesis
      proof (cases "card e (sent st @ [getResponse ?x])")
        case (Inl err)
        then have "y = (?st', Inl err)" using step(2) True raw by simp
        then show ?thesis by (auto intro: exI [of _ "[?x]"])
      next
        case (Inr moreData)
        then have "loop e ?st' (slice data (Some 0) (Some (- 2)) @ moreData) = Some y"
          using step(2) True raw by simp
        from step(1) [OF this] obtain xs where "fst y = ?st'\<lparr>sent := sent ?st' @ map getResponse xs\<rparr>"
          by blast
        then show ?thesis by (auto intro: exI [of _ "?x # xs"])
      qed
    qed
  qed
qed

lemma transmit_sent:
  assumes "transmit e st cmd = Some (st', res)"
  shows "(\<not> connected st \<and> st' = st \<and> res = Inl ''Not connected'')
       \<or> (connected st \<and> (\<exists>xs. st' = st\<lparr>sent := sent st @ cmd # map getResponse xs\<rparr>))"
proof (cases "connected st")
  case False
  then show ?thesis using assms by (auto simp: transmit_def transmitRaw_def connected_def)
next
  case True
  let ?st1 = "st\<lparr>sent := sent st @ [cmd]\<rparr>"
  show ?thesis
  proof (cases "card e (sent st @ [cmd])")
    case (Inl err)
    then have "st' = ?st1" using assms True by (simp add: transmit_def transmitRaw_connected)
    then show ?thesis using True by (auto intro: exI [of _ "[]"])
  next
    case (Inr data)
    then have "transmitLoop e ?st1 data = Some (st', res)"
      using assms True by (simp add: transmit_def transmitRaw_connected)
    from transmitLoop_sent [OF this] obtain xs where "st' = ?st1\<lparr>sent := sent ?st1 @ map getResponse xs\<rparr>"
      by auto
    then show ?thesis using True by (auto intro: exI [of _ xs])
  qed
qed

lemma transmit_chain:
  assumes conn: "connected st"
    and chunks: "\<forall>i < length cs. card e (sent st @ take (Suc i) (cmd # map (getResponse \<circ> snd) cs))
                           = Inr (fst (cs ! i) @ [0x61, snd (cs ! i)])"
    and fin: "card e (sent st @ cmd # map (getResponse \<circ> snd) cs) = Inr (pf @ [s1, s2])"
    and nonc: "s1 \<noteq> 0x61"
  shows "transmit e st cmd
         = Some (st\<lparr>sent := sent st @ cmd # map (getResponse \<circ> snd) cs\<rparr>,
                 Inr (concat (map fst cs) @ pf @ [s1, s2]))"
proof (cases cs)
  case Nil
  then have "card e (sent st @ [cmd]) = Inr (pf @ [s1, s2])" using fin by simp
  then show ?thesis
    using conn Nil transmitLoop_terminal [OF nonc, of e "st\<lparr>sent := sent st @ [cmd]\<rparr>" pf s2]
    by (simp add: transmit_def transmitRaw_connected)
next
  case (Cons c cs')
  obtain p x where c: "c = (p, x)" by (cases c)
  let ?st1 = "st\<lparr>sent := sent st @ [cmd]\<rparr>"
  have r0: "card e (sent st @ [cmd]) = Inr (p @ [0x61, x])"
    using chunks Cons c by auto
  have conn1: "connected ?st1" using conn by simp
  have shift: "\<forall>i < length cs'. card e (sent ?st1 @ map getResponse (x # map snd (take i cs')))
                           = Inr (fst (cs' ! i) @ [0x61, snd (cs' ! i)])"
  proof (intro allI impI)
    fix i assume "i < length cs'"
    then have "Suc i < length cs" using Cons by simp
    from chunks [rule_format, OF this] show
      "card e (sent ?st1 @ map getResponse (x # map snd (take i cs'))) = Inr (fst (cs' ! i) @ [0x61, snd (cs' ! i)])"
      using Cons c by (simp add: take_map)
  qed
  have fin1: "card e (sent ?st1 @ map getResponse (x # map snd cs')) = Inr (pf @ [s1, s2])"
    using fin Cons c by simp
  have "transmit e st cmd = transmitLoop e ?st1 ([] @ p @ [0x61, x])"
    using conn r0 by (simp add: transmit_def transmitRaw_connected)
  also have "\<dots> = transmitLoop e ?st1 (p @ [0x61, x])" by simp
  also have "\<dots> = Some (?st1\<lparr>sent := sent ?st1 @ map getResponse (x # map snd cs')\<rparr>,
                 Inr (p @ concat (map fst cs') @ pf @ [s1, s2]))"
    by (rule transmitLoop_chain [OF conn1 shift fin1 nonc])
  finally show ?thesis using Cons c by simp
qed

text \<open>
  Claim C3. On a connected session, let the card answer the command and the following
  GET RESPONSE commands with the partial responses \<open>cs\<close> (payload, then 61 and a second
  status byte) and at last with a response whose status word does not start with 61. Then
  \<open>transmit\<close> returns, it has sent the command and one GET RESPONSE
  \<^verbatim>\<open>00 C0 00 00 [second status byte]\<close> per partial response, and its result is the
  payloads in order, without the 61 XX status words, followed by the last response with its
  terminal status word. A response ending in 61 05 followed by 5 bytes and 90 00 is the
  instance of the witness.
\<close>

theorem transmit_continuation:
  assumes "readerPresent st" and "protocol st \<noteq> None"
    and "\<forall>i < length cs. card e (sent st @ take (Suc i) (cmd # map (getResponse \<circ> snd) cs))
                           = Inr (fst (cs ! i) @ [0x61, snd (cs ! i)])"
    and "card e (sent st @ cmd # map (getResponse \<circ> snd) cs) = Inr (pf @ [s1, s2])"
    and "s1 \<noteq> 0x61"
  shows "transmit e st cmd
         = Some (st\<lparr>sent := sent st @ cmd # map (getResponse \<circ> snd) cs\<rparr>,
                 Inr (concat (map fst cs) @ pf @ [s1, s2]))
       \<and> (\<forall>sw2. getResponse sw2 = [0x00, 0xc0, 0x00, 0x00, sw2])"
proof -
  have "connected st" using assms(1,2) by (simp add: connected_def)
  from transmit_chain [OF this assms(3,4,5)] show ?thesis by (simp add: getResponse_def)
qed

lemmas eval_session = testEnv_def scriptedCard_def freshSession_def connected_def getResponse_def

theorem transmit_continuation_witness:
  "transmit (testEnv [Inr [0xde, 0xad, 0x61, 0x05], Inr [0x01, 0x02, 0x03, 0x04, 0x05, 0x90, 0x00]])
     freshSession [0x00, 0xcb, 0x3f, 0xff, 0x05, 0x5c, 0x03, 0x5f, 0xc1, 0x05, 0x00]
   = Some (freshSession\<lparr>sent := [[0x00, 0xcb, 0x3f, 0xff, 0x05, 0x5c, 0x03, 0x5f, 0xc1, 0x05, 0x00],
                                   [0x00, 0xc0, 0x00, 0x00, 0x05]]\<rparr>,
           Inr [0xde, 0xad, 0x01, 0x02, 0x03, 0x04, 0x05, 0x90, 0x00])"
  using transmit_continuation [of freshSession "[([0xde, 0xad], 0x05)]"
      "testEnv [Inr [0xde, 0xad, 0x61, 0x05], Inr [0x01, 0x02, 0x03, 0x04, 0x05, 0x90, 0x00]]"
      "[0x00, 0xcb, 0x3f, 0xff, 0x05, 0x5c, 0x03, 0x5f, 0xc1, 0x05, 0x00]"
      "[0x01, 0x02, 0x03, 0x04, 0x05]" "0x90" "0x00"]
  by (simp add: eval_session)

section \<open>Properties of the PIV session\<close>

subsection \<open>PIN verification and the hash length\<close>

lemma sw_bytes: "byteAt [a, b] (Some 0) = Some a" "byteAt [a, b] (Some 1) = Some b"
  by (simp_all add: byteAt_def)

lemma decimal_digit: "n < 10 \<Longrightarrow> decimal n = [char_of (48 + n)]"
  by (subst decimal.simps) simp

lemma decimal_eval:
  "decimal 0 = ''0''" "decimal 1 = ''1''" "decimal 2 = ''2''" "decimal 3 = ''3''" "decimal 4 = ''4''"
  "decimal 5 = ''5''" "decimal 6 = ''6''" "decimal 7 = ''7''" "decimal 8 = ''8''" "decimal 9 = ''9''"
  by (simp_all add: decimal_digit char_of_def bit_0)

lemma verifyPin_response:
  assumes "transmit e st (verifyCommand pin) = Some (st', Inr (payload @ [sw1, sw2]))"
  shows "verifyPin e st pin =
     (if sw1 = 0x90 \<and> sw2 = 0x00 then Some (st', Inr ())
      else if sw1 = 0x63 \<and> sw2 AND 0xf0 = 0xc0 then
        Some (st', Inl (''Wrong PIN. '' @ decimal (unat (sw2 AND 0x0f)) @ '' attempts remaining.''))
      else if sw1 = 0x69 \<and> sw2 = 0x83 then Some (st', Inl ''PIN is blocked.'')
      else Some (st', Inl (''PIN verification failed: SW='' @ toHex [sw1, sw2])))"
  using assms by (simp add: verifyPin_def sliceFrom_sw sw_bytes Let_def)

text \<open>
  Claim C5. Whatever the payload before it, a VERIFY response with status word 90 00 makes
  \<open>verifyPin\<close> succeed; with 63 Cx it fails with the message that reports x, the low nibble
  of the second status byte, as the remaining attempts (3 for 63 C3); with 69 83 it fails
  with the message that the PIN is blocked.
\<close>

theorem verifyPin_status_words:
  assumes "transmit e st (verifyCommand pin) = Some (st', Inr (payload @ [sw1, sw2]))"
  shows "(sw1 = 0x90 \<and> sw2 = 0x00 \<longrightarrow> verifyPin e st pin = Some (st', Inr ()))
       \<and> (sw1 = 0x63 \<and> sw2 AND 0xf0 = 0xc0 \<longrightarrow>
            verifyPin e st pin
            = Some (st', Inl (''Wrong PIN. '' @ decimal (unat (sw2 AND 0x0f)) @ '' attempts remaining.''))
          \<and> unat (sw2 AND 0x0f) < 16)
       \<and> (sw1 = 0x63 \<and> sw2 = 0xc3 \<longrightarrow>
            verifyPin e st pin = Some (st', Inl ''Wrong PIN. 3 attempts remaining.''))
       \<and> (sw1 = 0x69 \<and> sw2 = 0x83 \<longrightarrow> verifyPin e st pin = Some (st', Inl ''PIN is blocked.''))"
proof -
  note r = verifyPin_response [OF assms]
  have nib: "unat (sw2 AND 0x0f) < 16"
  proof -
    have "sw2 AND 0x0f \<le> 0x0f" by (rule word_and_le1)
    then have "unat (sw2 AND 0x0f) \<le> unat (0x0f :: byte)" by (simp add: word_le_nat_alt)
    then show ?thesis by simp
  qed
  have a: "sw1 = 0x90 \<and> sw2 = 0x00 \<longrightarrow> verifyPin e st pin = Some (st', Inr ())"
    using r by simp
  have b: "sw1 = 0x63 \<and> sw2 AND 0xf0 = 0xc0 \<longrightarrow>
            verifyPin e st pin
            = Some (st', Inl (''Wrong PIN. '' @ decimal (unat (sw2 AND 0x0f)) @ '' attempts remaining.''))"
    using r by simp
  have c: "sw1 = 0x63 \<and> sw2 = 0xc3 \<longrightarrow>
            verifyPin e st pin = Some (st', Inl ''Wrong PIN. 3 attempts remaining.'')"
    using r by (simp add: decimal_eval)
  have d: "sw1 = 0x69 \<and> sw2 = 0x83 \<longrightarrow> verifyPin e st pin = Some (st', Inl ''PIN is blocked.'')"
    using r by simp
  show ?thesis using a b c d nib by blast
qed

lemma transmit_single:
  assumes "s1 \<noteq> 0x61"
  shows "transmit (testEnv [Inr (p @ [s1, s2])]) freshSession cmd
         = Some (freshSession\<lparr>sent := [cmd]\<rparr>, Inr (p @ [s1, s2]))"
proof -
  have c: "connected freshSession" by (simp add: connected_def freshSession_def)
  have s: "sent freshSession = []" by (simp add: freshSession_def)
  show ?thesis
    using assms transmit_chain [OF c, of "[]" "testEnv [Inr (p @ [s1, s2])]" cmd p s1 s2]
    by (simp add: s testEnv_def scriptedCard_def)
qed

theorem verifyPin_status_words_witness:
  "verifyPin (testEnv [Inr [0x63, 0xc3]]) freshSession ''123456''
     = Some (freshSession\<lparr>sent := [verifyCommand ''123456'']\<rparr>, Inl ''Wrong PIN. 3 attempts remaining.'')
   \<and> verifyPin (testEnv [Inr [0x69, 0x83]]) freshSession ''123456''
     = Some (freshSession\<lparr>sent := [verifyCommand ''123456'']\<rparr>, Inl ''PIN is blocked.'')
   \<and> verifyPin (testEnv [Inr [0x90, 0x00]]) freshSession ''123456''
     = Some (freshSession\<lparr>sent := [verifyCommand ''123456'']\<rparr>, Inr ())"
proof -
  have t: "\<And>s1 s2. s1 \<noteq> 0x61 \<Longrightarrow> transmit (testEnv [Inr [s1, s2]]) freshSession (verifyCommand ''123456'')
      = Some (freshSession\<lparr>sent := [verifyCommand ''123456'']\<rparr>, Inr ([] @ [s1, s2]))"
    using transmit_single [of _ "[]"] by simp
  show ?thesis
    using verifyPin_status_words [OF t [of "0x63" "0xc3"]]
          verifyPin_status_words [OF t [of "0x69" "0x83"]]
          verifyPin_status_words [OF t [of "0x90" "0x00"]]
    by (simp add: decimal_eval)
qed

lemma pinBytes_take: "pinBytes pin = map of_char (take 8 pin) @ replicate (8 - length pin) 0xff"
  by (simp add: pinBytes_def Let_def take_map)

lemma pinBytes_length: "length (pinBytes pin) = 8"
  by (simp add: pinBytes_take)

lemma pinBytes_truncate: "pinBytes (take 8 pin) = pinBytes pin"
  by (simp add: pinBytes_take min_def)

lemma verifyPin_sent:
  assumes "readerPresent st" "protocol st \<noteq> None" "verifyPin e st pin = Some (st', res)"
  shows "\<exists>xs. sent st' = sent st @ verifyCommand pin # map getResponse xs"
proof -
  have c: "connected st" using assms(1,2) by (simp add: connected_def)
  from assms(3) obtain res' where "transmit e st (verifyCommand pin) = Some (st', res')"
    by (auto simp: verifyPin_def Let_def split: option.splits sum.splits if_splits)
  from transmit_sent [OF this] c show ?thesis by auto
qed

text \<open>
  Claim C9. The PIN field of the VERIFY command is always 8 bytes: the first 8 characters
  of the PIN, then 0xFF filler when the PIN is shorter. A longer PIN is cut without any
  error: \<open>verifyPin\<close> sends the same command and returns the same outcome as for its first
  8 characters, and when it returns on a connected session the command it sent first is
  that 13-byte VERIFY command.
\<close>

theorem verifyPin_truncates_pin:
  "length (pinBytes pin) = 8
   \<and> pinBytes pin = map of_char (take 8 pin) @ replicate (8 - length pin) 0xff
   \<and> verifyCommand pin = [0x00, 0x20, 0x00, 0x80, 0x08] @ pinBytes pin
   \<and> verifyCommand pin = verifyCommand (take 8 pin)
   \<and> verifyPin e st pin = verifyPin e st (take 8 pin)
   \<and> (readerPresent st \<and> protocol st \<noteq> None \<and> verifyPin e st pin = Some (st', res)
        \<longrightarrow> (\<exists>xs. sent st' = sent st @ verifyCommand pin # map getResponse xs))"
proof -
  have cmd: "verifyCommand pin = verifyCommand (take 8 pin)"
    by (simp add: verifyCommand_def pinBytes_truncate)
  have same: "verifyPin e st pin = verifyPin e st (take 8 pin)"
    unfolding verifyPin_def cmd [symmetric] by (rule refl)
  have hdr: "verifyCommand pin = [0x00, 0x20, 0x00, 0x80, 0x08] @ pinBytes pin"
    by (simp add: verifyCommand_def)
  have snt: "readerPresent st \<and> protocol st \<noteq> None \<and> verifyPin e st pin = Some (st', res)
        \<longrightarrow> (\<exists>xs. sent st' = sent st @ verifyCommand pin # map getResponse xs)"
    using verifyPin_sent [of st e pin st' res] by blast
  show ?thesis
    using pinBytes_length [of pin] pinBytes_take [of pin] hdr cmd same snt by blast
qed

theorem verifyPin_truncates_pin_witness:
  "readerPresent freshSession \<and> protocol freshSession \<noteq> None
   \<and> verifyPin (testEnv [Inr [0x90, 0x00]]) freshSession ''1234567890''
      = Some (freshSession\<lparr>sent := [verifyCommand ''1234567890'']\<rparr>, Inr ())
   \<and> verifyCommand ''1234567890''
      = [0x00, 0x20, 0x00, 0x80, 0x08, 0x31, 0x32, 0x33, 0x34, 0x35, 0x36, 0x37, 0x38]
   \<and> length (pinBytes ''1234567890'') = 8
   \<and> verifyPin (testEnv [Inr [0x90, 0x00]]) freshSession ''1234567890''
      = verifyPin (testEnv [Inr [0x90, 0x00]]) freshSession (take 8 ''1234567890'')
   \<and> (\<exists>xs. sent (freshSession\<lparr>sent := [verifyCommand ''1234567890'']\<rparr>)
             = sent freshSession @ verifyCommand ''1234567890'' # map getResponse xs)"
proof -
  let ?e = "testEnv [Inr [0x90, 0x00]]"
  have cmd: "verifyCommand ''1234567890''
      = [0x00, 0x20, 0x00, 0x80, 0x08, 0x31, 0x32, 0x33, 0x34, 0x35, 0x36, 0x37, 0x38]"
    by (simp add: verifyCommand_def pinBytes_def)
  have t: "transmit ?e freshSession (verifyCommand ''1234567890'')
      = Some (freshSession\<lparr>sent := [verifyCommand ''1234567890'']\<rparr>, Inr ([] @ [0x90, 0x00]))"
    using transmit_single [of "0x90" "[]" "0x00"] by simp
  have v: "verifyPin ?e freshSession ''1234567890''
      = Some (freshSession\<lparr>sent := [verifyCommand ''1234567890'']\<rparr>, Inr ())"
    using verifyPin_response [OF t] by simp
  have conn: "readerPresent freshSession" "protocol freshSession \<noteq> None"
    by (simp_all add: freshSession_def)
  from verifyPin_truncates_pin [of "''1234567890''" ?e freshSession
      "freshSession\<lparr>sent := [verifyCommand ''1234567890'']\<rparr>" "Inr ()"] conn v cmd
  show ?thesis by blast
qed

lemma decimal_nonempty: "decimal n \<noteq> []"
  by (subst decimal.simps) simp

text \<open>
  Claim C4. Whatever the input string is, when the bytes that \<^verbatim>\<open>Buffer.from\<close> decodes from
  it (after the removal of the first \<^verbatim>\<open>0x\<close>) are not exactly 32, \<open>signHash\<close> returns the
  error that the hash must be 32 bytes, with the length it got, and the session is returned
  as it was: no command has been sent.
\<close>

theorem signHash_rejects_wrong_length:
  assumes "length (fromHex (replace0x hashHex)) \<noteq> 32"
  shows "signHash e st hashHex
         = Some (st, Inl (''Hash must be 32 bytes, got '' @ decimal (length (fromHex (replace0x hashHex)))))"
  using assms by (simp add: signHash_def Let_def)

theorem signHash_rejects_wrong_length_witness:
  "length (fromHex (replace0x ''0xabcd'')) \<noteq> 32
   \<and> signHash (testEnv []) freshSession ''0xabcd''
     = Some (freshSession, Inl ''Hash must be 32 bytes, got 2'')"
proof -
  have l: "fromHex (replace0x ''0xabcd'') = [0xab, 0xcd]"
    by (simp add: unhex_def)
  then have len: "length (fromHex (replace0x ''0xabcd'')) = 2" by simp
  then have ne: "length (fromHex (replace0x ''0xabcd'')) \<noteq> 32" by simp
  have "signHash (testEnv []) freshSession ''0xabcd''
        = Some (freshSession, Inl (''Hash must be 32 bytes, got '' @ decimal 2))"
    using signHash_rejects_wrong_length [OF ne, of "testEnv []" freshSession] unfolding len .
  then show ?thesis using ne by (simp add: decimal_eval)
qed

subsection \<open>Reading and generating the key\<close>

lemma transmit_scripted:
  assumes "connected st" and "length (sent st) < length answers"
    and "answers ! length (sent st) = Inr (p @ [s1, s2])" and "s1 \<noteq> 0x61"
  shows "transmit (testEnv answers) st cmd = Some (st\<lparr>sent := sent st @ [cmd]\<rparr>, Inr (p @ [s1, s2]))"
  using transmit_chain [OF assms(1), of "[]" "testEnv answers" cmd p s1 s2] assms(2,3,4)
  by (simp add: testEnv_def scriptedCard_def)

lemma readPublicKey_response:
  assumes "getSlotObjectId slot = Some objectId"
    and "transmit e st (getDataCommand objectId) = Some (st', Inr (payload @ [sw1, sw2]))"
  shows "readPublicKey e st slot =
     (if sw1 = 0x6a \<and> sw2 = 0x82 then Some (st', Inl ''NO_KEY'')
      else if sw1 \<noteq> 0x90 \<or> sw2 \<noteq> 0x00
      then Some (st', Inl (''Read public key failed: SW='' @ toHex [sw1, sw2]))
      else (case parsePublicKeyFromCert payload of
              None \<Rightarrow> Some (st', Inl ''Failed to parse public key from response'')
            | Some pubKey \<Rightarrow> Some (st', Inr pubKey)))"
  using assms by (simp add: readPublicKey_def sliceFrom_sw slice_payload sw_bytes Let_def)

text \<open>
  Claim C7. A GET DATA response with status word 6A 82 makes \<open>readPublicKey\<close> fail with the
  message \<^verbatim>\<open>NO_KEY\<close>, and every other status word but 90 00 makes it fail with a message
  that ends with the status word in hexadecimal and differs from \<^verbatim>\<open>NO_KEY\<close>. The
  generate-or-read operation tests the message: after \<^verbatim>\<open>NO_KEY\<close> it runs the key generation
  (a failure of the generation is its result), any other failure of the read is returned
  as it is with nothing more sent, and a key that was read is returned.
\<close>

theorem readPublicKey_no_key_signal:
  assumes "getSlotObjectId slot = Some objectId"
    and "transmit e st (getDataCommand objectId) = Some (st', Inr (payload @ [sw1, sw2]))"
  shows "(sw1 = 0x6a \<and> sw2 = 0x82 \<longrightarrow> readPublicKey e st slot = Some (st', Inl ''NO_KEY''))
       \<and> (\<not> (sw1 = 0x6a \<and> sw2 = 0x82) \<and> \<not> (sw1 = 0x90 \<and> sw2 = 0x00) \<longrightarrow>
            readPublicKey e st slot = Some (st', Inl (''Read public key failed: SW='' @ toHex [sw1, sw2]))
          \<and> ''Read public key failed: SW='' @ toHex [sw1, sw2] \<noteq> ''NO_KEY'')
       \<and> (\<forall>s0 s1 err. readPublicKey e s0 0x9a = Some (s1, Inl err) \<and> err \<noteq> ''NO_KEY'' \<longrightarrow>
            generateP256Key e s0 = Some (s1, Resolved (Inl err)))
       \<and> (\<forall>s0 s1 s2 generr. readPublicKey e s0 0x9a = Some (s1, Inl ''NO_KEY'')
              \<and> generateNewKey e s1 0x9a = Some (s2, Inl generr) \<longrightarrow>
            generateP256Key e s0 = Some (s2, Resolved (Inl generr)))
       \<and> (\<forall>s0 s1 pubKey. readPublicKey e s0 0x9a = Some (s1, Inr pubKey) \<longrightarrow>
            generateP256Key e s0 = Some (s1, Resolved (Inr pubKey)))"
proof -
  note r = readPublicKey_response [OF assms]
  have a: "sw1 = 0x6a \<and> sw2 = 0x82 \<longrightarrow> readPublicKey e st slot = Some (st', Inl ''NO_KEY'')"
    using r by simp
  have b: "\<not> (sw1 = 0x6a \<and> sw2 = 0x82) \<and> \<not> (sw1 = 0x90 \<and> sw2 = 0x00) \<longrightarrow>
            readPublicKey e st slot = Some (st', Inl (''Read public key failed: SW='' @ toHex [sw1, sw2]))
          \<and> ''Read public key failed: SW='' @ toHex [sw1, sw2] \<noteq> ''NO_KEY''"
    using r by auto
  have c: "\<forall>s0 s1 err. readPublicKey e s0 0x9a = Some (s1, Inl err) \<and> err \<noteq> ''NO_KEY'' \<longrightarrow>
            generateP256Key e s0 = Some (s1, Resolved (Inl err))"
    by (simp add: generateP256Key_def)
  have d: "\<forall>s0 s1 s2 generr. readPublicKey e s0 0x9a = Some (s1, Inl ''NO_KEY'')
              \<and> generateNewKey e s1 0x9a = Some (s2, Inl generr) \<longrightarrow>
            generateP256Key e s0 = Some (s2, Resolved (Inl generr))"
    by (simp add: generateP256Key_def)
  have f: "\<forall>s0 s1 pubKey. readPublicKey e s0 0x9a = Some (s1, Inr pubKey) \<longrightarrow>
            generateP256Key e s0 = Some (s1, Resolved (Inr pubKey))"
    by (simp add: generateP256Key_def)
  show ?thesis using a b c d f by blast
qed

lemma auth_witness_refused:
  assumes "transmit e st witnessReqCmd = Some (st1, Inr (d1 @ [sw1, sw2]))"
    and "sw1 \<noteq> 0x90 \<or> sw2 \<noteq> 0x00"
  shows "authenticateManagementKey e st
         = Some (st1, Inl (''Witness request failed: SW='' @ toHex [sw1, sw2]))"
  using assms by (auto simp: authenticateManagementKey_def sliceFrom_sw sw_bytes Let_def)

lemma auth_handshake:
  assumes "transmit e st witnessReqCmd = Some (st1, Inr (d1 @ [0x90, 0x00]))"
    and "parseTlvValue d1 0x80 = Some witness" and "length witness = 16"
    and "transmit e st1 (authCmd (aesDecrypt e mgmtKey witness) (randomBytes16 e))
         = Some (st2, Inr (d2 @ [0x90, 0x00]))"
    and "parseTlvValue d2 0x82 = Some cardResponse" and "length cardResponse = 16"
  shows "authenticateManagementKey e st
         = Some (st2, if cardResponse \<noteq> aesEncrypt e mgmtKey (randomBytes16 e)
                      then Inl ''Card response verification failed'' else Inr ())"
  using assms by (simp add: authenticateManagementKey_def sliceFrom_sw slice_payload sw_bytes Let_def)

lemma generateNewKey_auth_failed:
  "authenticateManagementKey e st = Some (st', Inl err) \<Longrightarrow> generateNewKey e st slot = Some (st', Inl err)"
  by (simp add: generateNewKey_def)

lemma generateNewKey_generated:
  assumes "authenticateManagementKey e st = Some (st1, Inr ())"
    and "transmit e st1 (generateCommand slot) = Some (st2, Inr (d @ [0x90, 0x00]))"
    and "parsePublicKeyResponse d = Some pubKey"
  shows "generateNewKey e st slot = Some (st2, Inr pubKey)"
  using assms by (simp add: generateNewKey_def sliceFrom_sw slice_payload sw_bytes Let_def)

lemmas eval_tlv = parseTlvValue_def parseTlvLoop.simps parseLength_def parseLengthBytes_def

lemma getSlotObjectId_9a: "getSlotObjectId 0x9a = Some [0x5f, 0xc1, 0x05]"
  by (simp add: getSlotObjectId_def)

lemma connected_fresh: "connected (freshSession\<lparr>sent := h\<rparr>)" "connected freshSession"
  by (simp_all add: connected_def freshSession_def)

theorem readPublicKey_no_key_signal_witness:
  "readPublicKey (testEnv [Inr [0x6a, 0x82], Inr [0x69, 0x82]]) freshSession 0x9a
     = Some (freshSession\<lparr>sent := [getDataCommand [0x5f, 0xc1, 0x05]]\<rparr>, Inl ''NO_KEY'')
   \<and> generateP256Key (testEnv [Inr [0x6a, 0x82], Inr [0x69, 0x82]]) freshSession
     = Some (freshSession\<lparr>sent := [getDataCommand [0x5f, 0xc1, 0x05], witnessReqCmd]\<rparr>,
             Resolved (Inl ''Witness request failed: SW=6982''))
   \<and> readPublicKey (testEnv [Inr [0x69, 0x82]]) freshSession 0x9a
     = Some (freshSession\<lparr>sent := [getDataCommand [0x5f, 0xc1, 0x05]]\<rparr>,
             Inl ''Read public key failed: SW=6982'')
   \<and> generateP256Key (testEnv [Inr [0x69, 0x82]]) freshSession
     = Some (freshSession\<lparr>sent := [getDataCommand [0x5f, 0xc1, 0x05]]\<rparr>,
             Resolved (Inl ''Read public key failed: SW=6982''))
   \<and> generateP256Key (testEnv [Inr ((spkiPrefix @ replicate 32 0x11 @ replicate 32 0x22) @ [0x90, 0x00])]) freshSession
     = Some (freshSession\<lparr>sent := [getDataCommand [0x5f, 0xc1, 0x05]]\<rparr>,
             Resolved (Inr \<lparr> publicKeyHex = toHex (0x04 # replicate 32 0x11 @ replicate 32 0x22),
                              pk_x = toHex (replicate 32 0x11), pk_y = toHex (replicate 32 0x22) \<rparr>))"
proof -
  let ?gd = "getDataCommand [0x5f, 0xc1, 0x05]"
  let ?e1 = "testEnv [Inr [0x6a, 0x82], Inr [0x69, 0x82]]"
  let ?e2 = "testEnv [Inr [0x69, 0x82]]"
  let ?xy = "replicate 32 0x11 @ replicate 32 0x22 :: buffer"
  let ?e3 = "testEnv [Inr ((spkiPrefix @ ?xy) @ [0x90, 0x00])]"
  let ?pk = "\<lparr> publicKeyHex = toHex (0x04 # ?xy), pk_x = toHex (replicate 32 0x11), pk_y = toHex (replicate 32 0x22) \<rparr>"
  let ?s1 = "freshSession\<lparr>sent := [?gd]\<rparr>"
  let ?s2 = "freshSession\<lparr>sent := [?gd, witnessReqCmd]\<rparr>"
  have f: "sent freshSession = []" by (simp add: freshSession_def)
  have t1: "transmit ?e1 freshSession ?gd = Some (?s1, Inr ([] @ [0x6a, 0x82]))"
    using transmit_scripted [OF connected_fresh(2), of "[Inr [0x6a, 0x82], Inr [0x69, 0x82]]" "[]" "0x6a" "0x82" ?gd]
    by (simp add: f)
  have t2: "transmit ?e2 freshSession ?gd = Some (?s1, Inr ([] @ [0x69, 0x82]))"
    using transmit_scripted [OF connected_fresh(2), of "[Inr [0x69, 0x82]]" "[]" "0x69" "0x82" ?gd]
    by (simp add: f)
  have t3: "transmit ?e1 ?s1 witnessReqCmd = Some (?s2, Inr ([] @ [0x69, 0x82]))"
    using transmit_scripted [OF connected_fresh(1), of "[?gd]" "[Inr [0x6a, 0x82], Inr [0x69, 0x82]]" "[]" "0x69" "0x82" witnessReqCmd]
    by simp
  have t4: "transmit ?e3 freshSession ?gd = Some (?s1, Inr ((spkiPrefix @ ?xy) @ [0x90, 0x00]))"
    using transmit_scripted [OF connected_fresh(2), of "[Inr ((spkiPrefix @ ?xy) @ [0x90, 0x00])]"
        "spkiPrefix @ ?xy" "0x90" "0x00" ?gd]
    by (simp add: f)
  have g: "generateNewKey ?e1 ?s1 0x9a = Some (?s2, Inl ''Witness request failed: SW=6982'')"
    using generateNewKey_auth_failed [OF auth_witness_refused [OF t3]]
    by (simp add: toHex_Cons toHex_Nil hexDigit_eval)
  note T1 = readPublicKey_no_key_signal [OF getSlotObjectId_9a t1]
  note T2 = readPublicKey_no_key_signal [OF getSlotObjectId_9a t2]
  note T3 = readPublicKey_no_key_signal [OF getSlotObjectId_9a t4]
  have r1: "readPublicKey ?e1 freshSession 0x9a = Some (?s1, Inl ''NO_KEY'')"
    using T1 by simp
  have r2: "readPublicKey ?e2 freshSession 0x9a = Some (?s1, Inl ''Read public key failed: SW=6982'')"
    using T2 by (simp add: toHex_Cons toHex_Nil hexDigit_eval)
  have "parsePublicKeyFromCert (spkiPrefix @ ?xy) = Some ?pk"
    using spki_parse [of ?xy] by simp
  then have r3: "readPublicKey ?e3 freshSession 0x9a = Some (?s1, Inr ?pk)"
    using readPublicKey_response [OF getSlotObjectId_9a t4] by simp
  have p1: "generateP256Key ?e1 freshSession = Some (?s2, Resolved (Inl ''Witness request failed: SW=6982''))"
    using T1 r1 g by blast
  have p2: "generateP256Key ?e2 freshSession = Some (?s1, Resolved (Inl ''Read public key failed: SW=6982''))"
    using T2 r2 by auto
  have p3: "generateP256Key ?e3 freshSession = Some (?s1, Resolved (Inr ?pk))"
    using T3 r3 by blast
  show ?thesis using r1 r2 p1 p2 p3 by blast
qed

lemma testEnv_sel:
  "aesEncrypt (testEnv a) k b = rev b" "aesDecrypt (testEnv a) k b = rev b"
  "randomBytes16 (testEnv a) = [0xa0, 0xa1, 0xa2, 0xa3, 0xa4, 0xa5, 0xa6, 0xa7, 0xa8, 0xa9, 0xaa, 0xab, 0xac, 0xad, 0xae, 0xaf]"
  "ykman (testEnv a) slot pubKey = StoreSettled (Inl ''ykman failed: no such command'')"
  "reconnect (testEnv a) st = Some (st\<lparr>readerPresent := True, protocol := Some 2, isConnected := True,
                                     connectPromiseResolved := True\<rparr>)"
  by (simp_all add: testEnv_def)

lemma witnessAnswer_tlv:
  "parseTlvValue witnessAnswer 0x80
   = Some [0x10, 0x11, 0x12, 0x13, 0x14, 0x15, 0x16, 0x17, 0x18, 0x19, 0x1a, 0x1b, 0x1c, 0x1d, 0x1e, 0x1f]"
  by (simp add: witnessAnswer_def eval_tlv eval_buf)

lemma cardAnswer_tlv:
  "parseTlvValue (cardAnswer b) 0x82
   = Some [b, 0xae, 0xad, 0xac, 0xab, 0xaa, 0xa9, 0xa8, 0xa7, 0xa6, 0xa5, 0xa4, 0xa3, 0xa2, 0xa1, 0xa0]"
  by (simp add: cardAnswer_def eval_tlv eval_buf)

lemma keyAnswer_parse:
  "parsePublicKeyResponse keyAnswer
   = Some \<lparr> publicKeyHex = toHex (0x04 # replicate 32 0x11 @ replicate 32 0x22),
            pk_x = toHex (replicate 32 0x11), pk_y = toHex (replicate 32 0x22) \<rparr>"
  by (simp add: keyAnswer_def parsePublicKeyResponse_def parseLength_def parseLengthBytes_def eval_buf)

lemma handshake_run:
  assumes "answers = [Inr [0x6a, 0x82], Inr (witnessAnswer @ [0x90, 0x00]), Inr (cardAnswer b @ [0x90, 0x00]),
                      Inr (keyAnswer @ [0x90, 0x00])]"
  shows "readPublicKey (testEnv answers) freshSession 0x9a
         = Some (freshSession\<lparr>sent := [getDataCommand [0x5f, 0xc1, 0x05]]\<rparr>, Inl ''NO_KEY'')"
    and "authenticateManagementKey (testEnv answers) (freshSession\<lparr>sent := [getDataCommand [0x5f, 0xc1, 0x05]]\<rparr>)
         = Some (freshSession\<lparr>sent := [getDataCommand [0x5f, 0xc1, 0x05], witnessReqCmd, testAuthCmd]\<rparr>,
                 if b \<noteq> 0xaf then Inl ''Card response verification failed'' else Inr ())"
    and "transmit (testEnv answers) (freshSession\<lparr>sent := [getDataCommand [0x5f, 0xc1, 0x05]]\<rparr>) witnessReqCmd
         = Some (freshSession\<lparr>sent := [getDataCommand [0x5f, 0xc1, 0x05], witnessReqCmd]\<rparr>,
                 Inr (witnessAnswer @ [0x90, 0x00]))"
    and "transmit (testEnv answers) (freshSession\<lparr>sent := [getDataCommand [0x5f, 0xc1, 0x05], witnessReqCmd]\<rparr>) testAuthCmd
         = Some (freshSession\<lparr>sent := [getDataCommand [0x5f, 0xc1, 0x05], witnessReqCmd, testAuthCmd]\<rparr>,
                 Inr (cardAnswer b @ [0x90, 0x00]))"
    and "transmit (testEnv answers) (freshSession\<lparr>sent := [getDataCommand [0x5f, 0xc1, 0x05], witnessReqCmd, testAuthCmd]\<rparr>)
           (generateCommand 0x9a)
         = Some (freshSession\<lparr>sent := [getDataCommand [0x5f, 0xc1, 0x05], witnessReqCmd, testAuthCmd, generateCommand 0x9a]\<rparr>,
                 Inr (keyAnswer @ [0x90, 0x00]))"
proof -
  let ?gd = "getDataCommand [0x5f, 0xc1, 0x05]"
  let ?e = "testEnv answers"
  have f: "sent freshSession = []" by (simp add: freshSession_def)
  have t1: "transmit ?e freshSession ?gd = Some (freshSession\<lparr>sent := [?gd]\<rparr>, Inr ([] @ [0x6a, 0x82]))"
    using transmit_scripted [OF connected_fresh(2), of answers "[]" "0x6a" "0x82" ?gd]
    by (simp add: f assms)
  show "readPublicKey ?e freshSession 0x9a = Some (freshSession\<lparr>sent := [?gd]\<rparr>, Inl ''NO_KEY'')"
    using readPublicKey_response [OF getSlotObjectId_9a t1] by simp
  show t2: "transmit ?e (freshSession\<lparr>sent := [?gd]\<rparr>) witnessReqCmd
         = Some (freshSession\<lparr>sent := [?gd, witnessReqCmd]\<rparr>, Inr (witnessAnswer @ [0x90, 0x00]))"
    using transmit_scripted [OF connected_fresh(1), of "[?gd]" answers witnessAnswer "0x90" "0x00" witnessReqCmd]
    by (simp add: assms)
  show t3: "transmit ?e (freshSession\<lparr>sent := [?gd, witnessReqCmd]\<rparr>) testAuthCmd
         = Some (freshSession\<lparr>sent := [?gd, witnessReqCmd, testAuthCmd]\<rparr>, Inr (cardAnswer b @ [0x90, 0x00]))"
    using transmit_scripted [OF connected_fresh(1), of "[?gd, witnessReqCmd]" answers "cardAnswer b" "0x90" "0x00" testAuthCmd]
    by (simp add: assms)
  show "transmit ?e (freshSession\<lparr>sent := [?gd, witnessReqCmd, testAuthCmd]\<rparr>) (generateCommand 0x9a)
         = Some (freshSession\<lparr>sent := [?gd, witnessReqCmd, testAuthCmd, generateCommand 0x9a]\<rparr>,
                 Inr (keyAnswer @ [0x90, 0x00]))"
    using transmit_scripted [OF connected_fresh(1), of "[?gd, witnessReqCmd, testAuthCmd]" answers keyAnswer "0x90" "0x00" "generateCommand 0x9a"]
    by (simp add: assms)
  have t3': "transmit ?e (freshSession\<lparr>sent := [?gd, witnessReqCmd]\<rparr>)
               (authCmd (aesDecrypt ?e mgmtKey [0x10, 0x11, 0x12, 0x13, 0x14, 0x15, 0x16, 0x17, 0x18, 0x19, 0x1a, 0x1b, 0x1c, 0x1d, 0x1e, 0x1f])
                        (randomBytes16 ?e))
         = Some (freshSession\<lparr>sent := [?gd, witnessReqCmd, testAuthCmd]\<rparr>, Inr (cardAnswer b @ [0x90, 0x00]))"
    using t3 by (simp add: testEnv_sel testAuthCmd_def)
  show "authenticateManagementKey ?e (freshSession\<lparr>sent := [?gd]\<rparr>)
         = Some (freshSession\<lparr>sent := [?gd, witnessReqCmd, testAuthCmd]\<rparr>,
                 if b \<noteq> 0xaf then Inl ''Card response verification failed'' else Inr ())"
    using auth_handshake [OF t2 witnessAnswer_tlv _ t3' cardAnswer_tlv]
    by (simp add: testEnv_sel)
qed

lemma generateP256Key_store_settled:
  assumes "readPublicKey e st 0x9a = Some (st1, Inl ''NO_KEY'')"
    and "generateNewKey e st1 0x9a = Some (st2, Inr pubKey)"
    and "ykman e 0x9a pubKey = StoreSettled storeResult"
    and "reconnect e (disconnectForYkman st2) = Some st3"
  shows "generateP256Key e st = Some (st3, Resolved (Inr pubKey))"
  using assms by (simp add: generateP256Key_def)

lemma generateP256Key_store_rejected:
  assumes "readPublicKey e st 0x9a = Some (st1, Inl ''NO_KEY'')"
    and "generateNewKey e st1 0x9a = Some (st2, Inr pubKey)"
    and "ykman e 0x9a pubKey = StoreRejected msg"
  shows "generateP256Key e st = Some (disconnectForYkman st2, Rejected msg)"
  using assms by (simp add: generateP256Key_def)

lemma storeThrows_sel:
  "card (storeThrows msg e) = card e" "aesEncrypt (storeThrows msg e) = aesEncrypt e"
  "aesDecrypt (storeThrows msg e) = aesDecrypt e" "randomBytes16 (storeThrows msg e) = randomBytes16 e"
  "ykman (storeThrows msg e) slot pubKey = StoreRejected msg"
  by (simp_all add: storeThrows_def)

lemma transmit_scripted_card:
  assumes "card e = scriptedCard answers" and "connected st" and "length (sent st) < length answers"
    and "answers ! length (sent st) = Inr (p @ [s1, s2])" and "s1 \<noteq> 0x61"
  shows "transmit e st cmd = Some (st\<lparr>sent := sent st @ [cmd]\<rparr>, Inr (p @ [s1, s2]))"
  using transmit_chain [OF assms(2), of "[]" e cmd p s1 s2] assms(1,3,4,5)
  by (simp add: scriptedCard_def)

lemma scripted_generation:
  assumes c: "card e = scriptedCard [Inr [0x6a, 0x82], Inr (witnessAnswer @ [0x90, 0x00]),
                                     Inr (cardAnswer 0xaf @ [0x90, 0x00]), Inr (keyAnswer @ [0x90, 0x00])]"
    and enc: "aesEncrypt e = (\<lambda>key block. rev block)" and dec: "aesDecrypt e = (\<lambda>key block. rev block)"
    and rnd: "randomBytes16 e = [0xa0, 0xa1, 0xa2, 0xa3, 0xa4, 0xa5, 0xa6, 0xa7, 0xa8, 0xa9, 0xaa, 0xab, 0xac, 0xad, 0xae, 0xaf]"
  shows "readPublicKey e freshSession 0x9a
         = Some (freshSession\<lparr>sent := [getDataCommand [0x5f, 0xc1, 0x05]]\<rparr>, Inl ''NO_KEY'')"
    and "generateNewKey e (freshSession\<lparr>sent := [getDataCommand [0x5f, 0xc1, 0x05]]\<rparr>) 0x9a
         = Some (freshSession\<lparr>sent := [getDataCommand [0x5f, 0xc1, 0x05], witnessReqCmd, testAuthCmd, generateCommand 0x9a]\<rparr>,
                 Inr \<lparr> publicKeyHex = toHex (0x04 # replicate 32 0x11 @ replicate 32 0x22),
                       pk_x = toHex (replicate 32 0x11), pk_y = toHex (replicate 32 0x22) \<rparr>)"
proof -
  let ?gd = "getDataCommand [0x5f, 0xc1, 0x05]"
  let ?answers = "[Inr [0x6a, 0x82], Inr (witnessAnswer @ [0x90, 0x00]),
                   Inr (cardAnswer 0xaf @ [0x90, 0x00]), Inr (keyAnswer @ [0x90, 0x00])]"
  have f: "sent freshSession = []" by (simp add: freshSession_def)
  have t1: "transmit e freshSession ?gd = Some (freshSession\<lparr>sent := [?gd]\<rparr>, Inr ([] @ [0x6a, 0x82]))"
    using transmit_scripted_card [OF c connected_fresh(2), of "[]" "0x6a" "0x82" ?gd]
    by (simp add: f)
  show "readPublicKey e freshSession 0x9a = Some (freshSession\<lparr>sent := [?gd]\<rparr>, Inl ''NO_KEY'')"
    using readPublicKey_response [OF getSlotObjectId_9a t1] by simp
  have t2: "transmit e (freshSession\<lparr>sent := [?gd]\<rparr>) witnessReqCmd
         = Some (freshSession\<lparr>sent := [?gd, witnessReqCmd]\<rparr>, Inr (witnessAnswer @ [0x90, 0x00]))"
    using transmit_scripted_card [OF c connected_fresh(1), of "[?gd]" witnessAnswer "0x90" "0x00" witnessReqCmd]
    by simp
  have t3: "transmit e (freshSession\<lparr>sent := [?gd, witnessReqCmd]\<rparr>) testAuthCmd
         = Some (freshSession\<lparr>sent := [?gd, witnessReqCmd, testAuthCmd]\<rparr>, Inr (cardAnswer 0xaf @ [0x90, 0x00]))"
    using transmit_scripted_card [OF c connected_fresh(1), of "[?gd, witnessReqCmd]" "cardAnswer 0xaf" "0x90" "0x00" testAuthCmd]
    by simp
  have t4: "transmit e (freshSession\<lparr>sent := [?gd, witnessReqCmd, testAuthCmd]\<rparr>) (generateCommand 0x9a)
         = Some (freshSession\<lparr>sent := [?gd, witnessReqCmd, testAuthCmd, generateCommand 0x9a]\<rparr>,
                 Inr (keyAnswer @ [0x90, 0x00]))"
    using transmit_scripted_card [OF c connected_fresh(1), of "[?gd, witnessReqCmd, testAuthCmd]" keyAnswer "0x90" "0x00" "generateCommand 0x9a"]
    by simp
  have t3': "transmit e (freshSession\<lparr>sent := [?gd, witnessReqCmd]\<rparr>)
               (authCmd (aesDecrypt e mgmtKey [0x10, 0x11, 0x12, 0x13, 0x14, 0x15, 0x16, 0x17, 0x18, 0x19, 0x1a, 0x1b, 0x1c, 0x1d, 0x1e, 0x1f])
                        (randomBytes16 e))
         = Some (freshSession\<lparr>sent := [?gd, witnessReqCmd, testAuthCmd]\<rparr>, Inr (cardAnswer 0xaf @ [0x90, 0x00]))"
    using t3 by (simp add: dec rnd testAuthCmd_def)
  have auth: "authenticateManagementKey e (freshSession\<lparr>sent := [?gd]\<rparr>)
         = Some (freshSession\<lparr>sent := [?gd, witnessReqCmd, testAuthCmd]\<rparr>, Inr ())"
    using auth_handshake [OF t2 witnessAnswer_tlv _ t3' cardAnswer_tlv]
    by (simp add: enc rnd)
  show "generateNewKey e (freshSession\<lparr>sent := [?gd]\<rparr>) 0x9a
         = Some (freshSession\<lparr>sent := [?gd, witnessReqCmd, testAuthCmd, generateCommand 0x9a]\<rparr>,
                 Inr \<lparr> publicKeyHex = toHex (0x04 # replicate 32 0x11 @ replicate 32 0x22),
                       pk_x = toHex (replicate 32 0x11), pk_y = toHex (replicate 32 0x22) \<rparr>)"
    by (rule generateNewKey_generated [OF auth t4 keyAnswer_parse])
qed

text \<open>
  Claim C10 at its failing input. The slot is empty, the key generation succeeds, and the
  certificate store cannot create its temporary directory: the exception of
  \<^verbatim>\<open>fs.mkdtempSync\<close> rejects the promise of the store. The generate-or-read operation then
  rejects with that error: the generated key is not returned, and the session stays
  disconnected, since the reconnect does not run. With the same card and a store that
  settles with a failure, the operation resolves with the generated key as a success.
\<close>

theorem generateP256Key_store_rejection_loses_key:
  "generateNewKey
     (storeThrows ''ENOENT: no such file or directory, mkdtemp''
        (testEnv [Inr [0x6a, 0x82], Inr (witnessAnswer @ [0x90, 0x00]), Inr (cardAnswer 0xaf @ [0x90, 0x00]),
                  Inr (keyAnswer @ [0x90, 0x00])]))
     (freshSession\<lparr>sent := [getDataCommand [0x5f, 0xc1, 0x05]]\<rparr>) 0x9a
   = Some (freshSession\<lparr>sent := [getDataCommand [0x5f, 0xc1, 0x05], witnessReqCmd, testAuthCmd, generateCommand 0x9a]\<rparr>,
           Inr \<lparr> publicKeyHex = toHex (0x04 # replicate 32 0x11 @ replicate 32 0x22),
                 pk_x = toHex (replicate 32 0x11), pk_y = toHex (replicate 32 0x22) \<rparr>)
   \<and> generateP256Key
     (storeThrows ''ENOENT: no such file or directory, mkdtemp''
        (testEnv [Inr [0x6a, 0x82], Inr (witnessAnswer @ [0x90, 0x00]), Inr (cardAnswer 0xaf @ [0x90, 0x00]),
                  Inr (keyAnswer @ [0x90, 0x00])]))
     freshSession
   = Some (disconnectForYkman
             (freshSession\<lparr>sent := [getDataCommand [0x5f, 0xc1, 0x05], witnessReqCmd, testAuthCmd, generateCommand 0x9a]\<rparr>),
           Rejected ''ENOENT: no such file or directory, mkdtemp'')
   \<and> generateP256Key
        (testEnv [Inr [0x6a, 0x82], Inr (witnessAnswer @ [0x90, 0x00]), Inr (cardAnswer 0xaf @ [0x90, 0x00]),
                  Inr (keyAnswer @ [0x90, 0x00])])
        freshSession
   = Some (freshSession\<lparr>sent := [getDataCommand [0x5f, 0xc1, 0x05], witnessReqCmd, testAuthCmd, generateCommand 0x9a]\<rparr>,
           Resolved (Inr \<lparr> publicKeyHex = toHex (0x04 # replicate 32 0x11 @ replicate 32 0x22),
                            pk_x = toHex (replicate 32 0x11), pk_y = toHex (replicate 32 0x22) \<rparr>))"
proof -
  let ?answers = "[Inr [0x6a, 0x82], Inr (witnessAnswer @ [0x90, 0x00]), Inr (cardAnswer 0xaf @ [0x90, 0x00]),
                   Inr (keyAnswer @ [0x90, 0x00])]"
  let ?msg = "''ENOENT: no such file or directory, mkdtemp''"
  let ?e = "testEnv ?answers"
  let ?t = "storeThrows ?msg ?e"
  let ?pk = "\<lparr> publicKeyHex = toHex (0x04 # replicate 32 0x11 @ replicate 32 0x22),
              pk_x = toHex (replicate 32 0x11), pk_y = toHex (replicate 32 0x22) \<rparr>"
  let ?s4 = "freshSession\<lparr>sent := [getDataCommand [0x5f, 0xc1, 0x05], witnessReqCmd, testAuthCmd, generateCommand 0x9a]\<rparr>"
  have ce: "card ?e = scriptedCard ?answers" "aesEncrypt ?e = (\<lambda>key block. rev block)"
    "aesDecrypt ?e = (\<lambda>key block. rev block)"
    "randomBytes16 ?e = [0xa0, 0xa1, 0xa2, 0xa3, 0xa4, 0xa5, 0xa6, 0xa7, 0xa8, 0xa9, 0xaa, 0xab, 0xac, 0xad, 0xae, 0xaf]"
    by (simp_all add: testEnv_def)
  have ct: "card ?t = scriptedCard ?answers" "aesEncrypt ?t = (\<lambda>key block. rev block)"
    "aesDecrypt ?t = (\<lambda>key block. rev block)"
    "randomBytes16 ?t = [0xa0, 0xa1, 0xa2, 0xa3, 0xa4, 0xa5, 0xa6, 0xa7, 0xa8, 0xa9, 0xaa, 0xab, 0xac, 0xad, 0xae, 0xaf]"
    using ce by (simp_all only: storeThrows_sel)
  note runE = scripted_generation [OF ce]
  note runT = scripted_generation [OF ct]
  have rej: "ykman ?t 0x9a ?pk = StoreRejected ?msg" by (simp only: storeThrows_sel)
  have store: "ykman ?e 0x9a ?pk = StoreSettled (Inl ''ykman failed: no such command'')"
    by (simp add: testEnv_sel)
  have rec: "reconnect ?e (disconnectForYkman ?s4) = Some ?s4"
    by (simp add: testEnv_sel disconnectForYkman_def freshSession_def)
  note a = generateP256Key_store_rejected [OF runT rej]
  note b = generateP256Key_store_settled [OF runE store rec]
  show ?thesis using runT(2) a b by blast
qed

theorem generateP256Key_store_rejection_loses_key_witness:
  "generateP256Key
     (storeThrows ''ENOENT: no such file or directory, mkdtemp''
        (testEnv [Inr [0x6a, 0x82], Inr (witnessAnswer @ [0x90, 0x00]), Inr (cardAnswer 0xaf @ [0x90, 0x00]),
                  Inr (keyAnswer @ [0x90, 0x00])]))
     freshSession
   = Some (\<lparr> readerPresent = False, protocol = None, isConnected = False, connectPromiseResolved = False,
              sent = [getDataCommand [0x5f, 0xc1, 0x05], witnessReqCmd, testAuthCmd, generateCommand 0x9a] \<rparr>,
           Rejected ''ENOENT: no such file or directory, mkdtemp'')"
  using generateP256Key_store_rejection_loses_key
  by (simp add: disconnectForYkman_def freshSession_def)

subsection \<open>Management-key authentication\<close>

lemma generateCommand_ins:
  "generateCommand slot \<noteq> witnessReqCmd" "generateCommand slot \<noteq> authCmd a b"
  "generateCommand slot \<noteq> getResponse sw2"
  by (simp_all add: generateCommand_def witnessReqCmd_def authCmd_def getResponse_def)

lemma transmit_sent_other:
  assumes "transmit e st cmd = Some (st', res)" and "cmd \<noteq> generateCommand slot"
  shows "\<exists>cmds. sent st' = sent st @ cmds \<and> generateCommand slot \<notin> set cmds"
proof -
  from transmit_sent [OF assms(1)] show ?thesis
  proof
    assume "\<not> connected st \<and> st' = st \<and> res = Inl ''Not connected''"
    then show ?thesis by (auto intro: exI [of _ "[]"])
  next
    assume "connected st \<and> (\<exists>xs. st' = st\<lparr>sent := sent st @ cmd # map getResponse xs\<rparr>)"
    then obtain xs where "st' = st\<lparr>sent := sent st @ cmd # map getResponse xs\<rparr>" by blast
    then have "sent st' = sent st @ (cmd # map getResponse xs)" by simp
    moreover have "generateCommand slot \<notin> set (cmd # map getResponse xs)"
      using assms(2) generateCommand_ins(3) [of slot] by auto
    ultimately show ?thesis by blast
  qed
qed

lemma auth_cases:
  assumes "authenticateManagementKey e st = Some (st', res)"
  shows "(\<exists>r1. transmit e st witnessReqCmd = Some (st', r1))
       \<or> (\<exists>st1 r1 w r2. transmit e st witnessReqCmd = Some (st1, r1)
             \<and> transmit e st1 (authCmd w (randomBytes16 e)) = Some (st', r2))"
proof (cases "transmit e st witnessReqCmd")
  case None
  then show ?thesis using assms by (simp add: authenticateManagementKey_def)
next
  case (Some a)
  obtain st1 r1 where a: "a = (st1, r1)" by (cases a)
  show ?thesis
  proof (cases r1)
    case (Inl err)
    then show ?thesis using assms Some a by (simp add: authenticateManagementKey_def)
  next
    case (Inr data)
    let ?sw = "sliceFrom data (Some (- 2))"
    show ?thesis
    proof (cases "byteAt ?sw (Some 0) \<noteq> Some 0x90 \<or> byteAt ?sw (Some 1) \<noteq> Some 0x00")
      case True
      then show ?thesis using assms Some a Inr by (auto simp: authenticateManagementKey_def Let_def)
    next
      case sw: False
      show ?thesis
      proof (cases "parseTlvValue (slice data (Some 0) (Some (- 2))) 0x80")
        case None
        then show ?thesis using assms Some a Inr sw by (auto simp: authenticateManagementKey_def Let_def)
      next
        case (Some w)
        show ?thesis
        proof (cases "length w \<noteq> 16")
          case True
          then show ?thesis using assms \<open>transmit e st witnessReqCmd = Some a\<close> a Inr sw Some
            by (auto simp: authenticateManagementKey_def Let_def)
        next
          case False
          let ?c = "authCmd (aesDecrypt e mgmtKey w) (randomBytes16 e)"
          have "\<exists>r2. transmit e st1 ?c = Some (st', r2)"
            using assms \<open>transmit e st witnessReqCmd = Some a\<close> a Inr sw Some False
            by (auto simp: authenticateManagementKey_def Let_def split: option.splits sum.splits if_splits)
          then show ?thesis using \<open>transmit e st witnessReqCmd = Some a\<close> a by blast
        qed
      qed
    qed
  qed
qed

lemma auth_sent:
  assumes "authenticateManagementKey e st = Some (st', res)"
  shows "\<exists>cmds. sent st' = sent st @ cmds \<and> generateCommand slot \<notin> set cmds"
proof -
  from auth_cases [OF assms] show ?thesis
  proof
    assume "\<exists>r1. transmit e st witnessReqCmd = Some (st', r1)"
    then obtain r1 where "transmit e st witnessReqCmd = Some (st', r1)" by blast
    from transmit_sent_other [OF this] generateCommand_ins(1) [of slot] show ?thesis by metis
  next
    assume "\<exists>st1 r1 w r2. transmit e st witnessReqCmd = Some (st1, r1)
             \<and> transmit e st1 (authCmd w (randomBytes16 e)) = Some (st', r2)"
    then obtain st1 r1 w r2 where t1: "transmit e st witnessReqCmd = Some (st1, r1)"
      and t2: "transmit e st1 (authCmd w (randomBytes16 e)) = Some (st', r2)" by blast
    from transmit_sent_other [OF t1, of slot] generateCommand_ins(1) [of slot]
    obtain c1 where c1: "sent st1 = sent st @ c1" "generateCommand slot \<notin> set c1" by metis
    from transmit_sent_other [OF t2, of slot] generateCommand_ins(2) [of slot]
    obtain c2 where c2: "sent st' = sent st1 @ c2" "generateCommand slot \<notin> set c2" by metis
    have "sent st' = sent st @ (c1 @ c2)" using c1 c2 by simp
    moreover have "generateCommand slot \<notin> set (c1 @ c2)" using c1 c2 by simp
    ultimately show ?thesis by blast
  qed
qed

text \<open>
  Claim C2. When both exchanges of the handshake end with 90 00 and the 16-byte value
  under tag 82 of the card's answer differs from the local challenge encrypted with AES-192
  under the management key, \<open>authenticateManagementKey\<close> fails with the message of the
  failed verification. \<open>generateNewKey\<close> returns every failure of the authentication
  unchanged, in the session the authentication left, and no command sent since it started
  is the GENERATE ASYMMETRIC KEY PAIR command.
\<close>

theorem management_key_mismatch_blocks_generation:
  assumes "transmit e st witnessReqCmd = Some (st1, Inr (d1 @ [0x90, 0x00]))"
    and "parseTlvValue d1 0x80 = Some witness" and "length witness = 16"
    and "transmit e st1 (authCmd (aesDecrypt e mgmtKey witness) (randomBytes16 e))
         = Some (st2, Inr (d2 @ [0x90, 0x00]))"
    and "parseTlvValue d2 0x82 = Some cardResponse" and "length cardResponse = 16"
    and "cardResponse \<noteq> aesEncrypt e mgmtKey (randomBytes16 e)"
  shows "authenticateManagementKey e st = Some (st2, Inl ''Card response verification failed'')
       \<and> generateNewKey e st slot = Some (st2, Inl ''Card response verification failed'')
       \<and> (\<exists>cmds. sent st2 = sent st @ cmds \<and> generateCommand slot \<notin> set cmds)
       \<and> (\<forall>s0 s' err. authenticateManagementKey e s0 = Some (s', Inl err) \<longrightarrow>
             generateNewKey e s0 slot = Some (s', Inl err)
           \<and> (\<exists>cmds. sent s' = sent s0 @ cmds \<and> generateCommand slot \<notin> set cmds))"
proof -
  have a: "authenticateManagementKey e st = Some (st2, Inl ''Card response verification failed'')"
    using auth_handshake [OF assms(1-6)] assms(7) by simp
  have g: "\<forall>s0 s' err. authenticateManagementKey e s0 = Some (s', Inl err) \<longrightarrow>
             generateNewKey e s0 slot = Some (s', Inl err)
           \<and> (\<exists>cmds. sent s' = sent s0 @ cmds \<and> generateCommand slot \<notin> set cmds)"
    using generateNewKey_auth_failed auth_sent by blast
  show ?thesis using a g by blast
qed

theorem management_key_mismatch_blocks_generation_witness:
  "authenticateManagementKey
     (testEnv [Inr [0x6a, 0x82], Inr (witnessAnswer @ [0x90, 0x00]), Inr (cardAnswer 0xae @ [0x90, 0x00]),
               Inr (keyAnswer @ [0x90, 0x00])])
     (freshSession\<lparr>sent := [getDataCommand [0x5f, 0xc1, 0x05]]\<rparr>)
   = Some (freshSession\<lparr>sent := [getDataCommand [0x5f, 0xc1, 0x05], witnessReqCmd, testAuthCmd]\<rparr>,
           Inl ''Card response verification failed'')
   \<and> generateNewKey
     (testEnv [Inr [0x6a, 0x82], Inr (witnessAnswer @ [0x90, 0x00]), Inr (cardAnswer 0xae @ [0x90, 0x00]),
               Inr (keyAnswer @ [0x90, 0x00])])
     (freshSession\<lparr>sent := [getDataCommand [0x5f, 0xc1, 0x05]]\<rparr>) 0x9a
   = Some (freshSession\<lparr>sent := [getDataCommand [0x5f, 0xc1, 0x05], witnessReqCmd, testAuthCmd]\<rparr>,
           Inl ''Card response verification failed'')
   \<and> generateCommand 0x9a \<notin> set [witnessReqCmd, testAuthCmd]"
proof -
  let ?answers = "[Inr [0x6a, 0x82], Inr (witnessAnswer @ [0x90, 0x00]), Inr (cardAnswer 0xae @ [0x90, 0x00]),
                   Inr (keyAnswer @ [0x90, 0x00])]"
  let ?e = "testEnv ?answers"
  let ?w = "[0x10, 0x11, 0x12, 0x13, 0x14, 0x15, 0x16, 0x17, 0x18, 0x19, 0x1a, 0x1b, 0x1c, 0x1d, 0x1e, 0x1f] :: buffer"
  let ?cr = "[0xae, 0xae, 0xad, 0xac, 0xab, 0xaa, 0xa9, 0xa8, 0xa7, 0xa6, 0xa5, 0xa4, 0xa3, 0xa2, 0xa1, 0xa0] :: buffer"
  note run = handshake_run [OF refl, of "0xae"]
  have t3: "transmit ?e (freshSession\<lparr>sent := [getDataCommand [0x5f, 0xc1, 0x05], witnessReqCmd]\<rparr>)
               (authCmd (aesDecrypt ?e mgmtKey ?w) (randomBytes16 ?e))
         = Some (freshSession\<lparr>sent := [getDataCommand [0x5f, 0xc1, 0x05], witnessReqCmd, testAuthCmd]\<rparr>,
                 Inr (cardAnswer 0xae @ [0x90, 0x00]))"
    using run(4) by (simp add: testEnv_sel testAuthCmd_def)
  have lw: "length ?w = 16" by simp
  have lc: "length ?cr = 16" by simp
  have ne: "?cr \<noteq> aesEncrypt ?e mgmtKey (randomBytes16 ?e)" by (simp add: testEnv_sel)
  have ng: "generateCommand 0x9a \<notin> set [witnessReqCmd, testAuthCmd]"
    using generateCommand_ins(1,2) by (simp add: testAuthCmd_def)
  from management_key_mismatch_blocks_generation
         [OF run(3) witnessAnswer_tlv lw t3 cardAnswer_tlv lc ne, of "0x9a"] ng
  show ?thesis by blast
qed

section \<open>Parsers on short blobs\<close>

lemma byteAt_SomeD: "byteAt buf off = Some b \<Longrightarrow> \<exists>i. off = Some i \<and> 0 \<le> i \<and> i < int (length buf)"
  by (auto simp: byteAt_def split: option.splits if_splits)

lemma byteAt_beyond: "int (length buf) \<le> i \<Longrightarrow> byteAt buf (Some i) = None"
  by (simp add: byteAt_def)

lemma parseLengthBytes_InrD:
  "parseLengthBytes d off = Inr k \<Longrightarrow> 1 \<le> k \<and> k \<le> 3 \<and> (\<exists>i. off = Some i \<and> 0 \<le> i \<and> i < int (length d))"
  by (auto simp: parseLengthBytes_def split: option.splits if_splits dest: byteAt_SomeD)

lemma parseLength_InrD:
  "parseLength d off = Inr l \<Longrightarrow> (\<exists>i. off = Some i \<and> 0 \<le> i \<and> i < int (length d))"
  by (auto simp: parseLength_def split: option.splits if_splits dest: byteAt_SomeD)

lemma parseLength_nonneg: "parseLength d off = Inr (Some n) \<Longrightarrow> 0 \<le> n"
  by (auto simp: parseLength_def split: option.splits if_splits)

lemma length_beyond:
  "int (length blob) \<le> off \<Longrightarrow>
   parseLength blob (Some off) = Inl ''Unsupported length encoding''
   \<and> parseLengthBytes blob (Some off) = Inl ''Unsupported length encoding''"
  by (simp add: parseLength_def parseLengthBytes_def byteAt_beyond)

lemma slice_from: "0 \<le> s \<Longrightarrow> \<exists>n. slice buf (Some s) e = take n (drop (nat s) buf)"
  by (auto simp: slice_def adjustOffset_def Let_def intro: exI [of _ 0])

lemma slice_65:
  assumes "0 \<le> s" and "length (slice buf (Some s) e) = 65"
  shows "nat s + 65 \<le> length buf \<and> slice buf (Some s) e = take 65 (drop (nat s) buf)"
proof -
  from slice_from [OF assms(1), of buf e] obtain n where n: "slice buf (Some s) e = take n (drop (nat s) buf)"
    by blast
  with assms(2) have l: "min n (length buf - nat s) = 65" by simp
  then have le: "nat s + 65 \<le> length buf" by (simp add: min_def split: if_splits)
  have "take n (drop (nat s) buf) = take 65 (drop (nat s) buf)"
  proof (cases "n \<le> length buf - nat s")
    case True
    then show ?thesis using l by (simp add: min_def)
  next
    case False
    then have "length buf - nat s = 65" using l by (simp add: min_def)
    then show ?thesis using False by simp
  qed
  then show ?thesis using n le by simp
qed

lemma find_member: "List.find P xs = Some v \<Longrightarrow> v \<in> set xs"
  by (induction xs) (auto split: if_splits)

lemma findEcOid_nonneg: "findEcOid blob = Some i \<Longrightarrow> 0 \<le> i"
  using find_member [of _ "[0 .. int (length blob) - int (length ecPubKeyOid) - 1]" i]
  by (auto simp: findEcOid_def)

lemma byteAt_take_drop_eq:
  "0 \<le> j \<Longrightarrow> j < int (length (take n (drop m buf))) \<Longrightarrow>
   byteAt (take n (drop m buf)) (Some j) = byteAt buf (Some (int m + j))"
  by (auto simp: byteAt_def nat_add_distrib)

lemma byteAt_take_drop:
  "byteAt (take n (drop m buf)) (Some j) = Some v \<Longrightarrow> byteAt buf (Some (int m + j)) = Some v"
  using byteAt_SomeD [of "take n (drop m buf)" "Some j" v] byteAt_take_drop_eq [of j n m buf] by auto

lemma parseLengthBytes_take_drop:
  assumes "parseLengthBytes (take n (drop m buf)) (Some j) = Inr k"
  shows "parseLengthBytes buf (Some (int m + j)) = Inr k"
proof -
  from assms obtain fb where fb: "byteAt (take n (drop m buf)) (Some j) = Some fb"
    by (auto simp: parseLengthBytes_def split: option.splits)
  from byteAt_take_drop [OF fb] have "byteAt buf (Some (int m + j)) = Some fb" .
  then show ?thesis using assms fb by (simp add: parseLengthBytes_def)
qed

lemma parseLength_take_drop:
  assumes pl: "parseLength (take n (drop m buf)) (Some j) = Inr (Some l)"
    and lb: "parseLengthBytes (take n (drop m buf)) (Some j) = Inr k"
    and inside: "j + k \<le> int (length (take n (drop m buf)))"
  shows "parseLength buf (Some (int m + j)) = Inr (Some l)"
proof -
  let ?d = "take n (drop m buf)"
  from pl obtain fb where fb: "byteAt ?d (Some j) = Some fb"
    by (auto simp: parseLength_def split: option.splits)
  from byteAt_take_drop [OF fb] have fb': "byteAt buf (Some (int m + j)) = Some fb" .
  from byteAt_SomeD [OF fb] have j0: "0 \<le> j" by auto
  consider "fb \<le> 0x7f" | "\<not> fb \<le> 0x7f" "fb = 0x81" | "\<not> fb \<le> 0x7f" "fb \<noteq> 0x81" "fb = 0x82"
    using pl fb by (auto simp: parseLength_def split: if_splits)
  then show ?thesis
  proof cases
    case 1
    then show ?thesis using pl fb fb' by (simp add: parseLength_def)
  next
    case 2
    then have "k = 2" using lb fb by (simp add: parseLengthBytes_def)
    then have "j + 1 < int (length ?d)" using inside by simp
    then have "byteAt ?d (Some (j + 1)) = byteAt buf (Some (int m + (j + 1)))"
      using byteAt_take_drop_eq [of "j + 1" n m buf] j0 by simp
    then show ?thesis using pl fb fb' 2 by (simp add: parseLength_def addNum_def add.assoc)
  next
    case 3
    then have "k = 3" using lb fb by (simp add: parseLengthBytes_def)
    then have "j + 1 < int (length ?d)" "j + 2 < int (length ?d)" using inside by simp_all
    then have "byteAt ?d (Some (j + 1)) = byteAt buf (Some (int m + (j + 1)))"
      "byteAt ?d (Some (j + 2)) = byteAt buf (Some (int m + (j + 2)))"
      using byteAt_take_drop_eq [of "j + 1" n m buf] byteAt_take_drop_eq [of "j + 2" n m buf] j0 by simp_all
    then show ?thesis using pl fb fb' 3 by (simp add: parseLength_def addNum_def add.assoc)
  qed
qed

lemma slice_inside:
  "0 \<le> s \<Longrightarrow> s \<le> e \<Longrightarrow> e \<le> int (length buf) \<Longrightarrow>
   slice buf (Some s) (Some e) = take (nat (e - s)) (drop (nat s) buf) \<and> length (slice buf (Some s) (Some e)) = nat (e - s)"
  by (auto simp: slice_def adjustOffset_def Let_def nat_diff_distrib)

lemma take_drop_inside:
  "b + a \<le> length (take n (drop m buf)) \<Longrightarrow> take a (drop b (take n (drop m buf))) = take a (drop (m + b) buf)"
proof -
  assume "b + a \<le> length (take n (drop m buf))"
  then have "b + a \<le> n" by simp
  then have "a \<le> n - b" by linarith
  then have "min a (n - b) = a" by simp
  then show ?thesis by (simp add: drop_take add.commute)
qed

lemma derIntegers_fields:
  assumes "derIntegers der = Inr (a, b)"
  shows "\<exists>k rlb rLen.
           byteAt der (Some 0) = Some 0x30 \<and> parseLengthBytes der (Some 1) = Inr k
         \<and> byteAt der (Some (1 + k)) = Some 0x02
         \<and> parseLengthBytes der (Some (1 + k + 1)) = Inr rlb
         \<and> parseLength der (Some (1 + k + 1)) = Inr (Some rLen)
         \<and> 1 \<le> k \<and> 1 \<le> rlb \<and> 0 \<le> rLen
         \<and> a = take (nat rLen) (drop (nat (1 + k + 1 + rlb)) der)
         \<and> byteAt der (Some (1 + k + 1 + rlb + rLen)) = Some 0x02
         \<and> 1 + k + 1 + rlb + rLen + 1 < int (length der)"
proof -
  from assms have t0: "byteAt der (Some 0) = Some 0x30"
    by (auto simp: derIntegers_def split: if_splits)
  from assms obtain k where k: "parseLengthBytes der (Some 1) = Inr k"
    by (auto simp: derIntegers_def split: if_splits sum.splits)
  then have k1: "1 \<le> k" using parseLengthBytes_InrD by blast
  from assms k have t1: "byteAt der (Some (1 + k)) = Some 0x02"
    by (auto simp: derIntegers_def Let_def split: if_splits sum.splits)
  from assms k obtain rLen rlb where
    rl: "parseLength der (Some (1 + k + 1)) = Inr rLen" and rb: "parseLengthBytes der (Some (1 + k + 1)) = Inr rlb"
    by (auto simp: derIntegers_def Let_def split: if_splits sum.splits)
  have rb1: "1 \<le> rlb" using rb parseLengthBytes_InrD by blast
  let ?o2 = "Some (1 + k + 1 + rlb)"
  let ?o3 = "addNum ?o2 rLen"
  from assms k rl rb have tag: "byteAt der ?o3 = Some 0x02"
    and a: "a = slice der ?o2 ?o3"
    by (auto simp: derIntegers_def Let_def split: if_splits sum.splits)
  from byteAt_SomeD [OF tag] obtain i where i: "?o3 = Some i" "i < int (length der)" by blast
  then obtain l where l: "rLen = Some l" "i = 1 + k + 1 + rlb + l"
    by (auto simp: addNum_def split: option.splits)
  have l0: "0 \<le> l" using rl l parseLength_nonneg by blast
  from assms k rl rb tag obtain sLen where "parseLength der (addNum ?o3 (Some 1)) = Inr sLen"
    by (auto simp: derIntegers_def Let_def split: if_splits sum.splits)
  from parseLength_InrD [OF this] i have last: "i + 1 < int (length der)"
    by (auto simp: addNum_def)
  have "slice der (Some (1 + k + 1 + rlb)) (Some (1 + k + 1 + rlb + l))
        = take (nat (1 + k + 1 + rlb + l - (1 + k + 1 + rlb))) (drop (nat (1 + k + 1 + rlb)) der)"
    using slice_inside [of "1 + k + 1 + rlb" "1 + k + 1 + rlb + l" der] k1 rb1 l0 i l by simp
  then have a': "a = take (nat l) (drop (nat (1 + k + 1 + rlb)) der)"
    using a l by (simp add: addNum_def)
  show ?thesis
    using t0 k t1 rb rl l k1 rb1 l0 a' tag i last by (auto simp: addNum_def)
qed

lemma length_toHex: "length (toHex buf) = 2 * length buf"
  by (induction buf) (simp_all add: toHex_Cons toHex_Nil)

lemma parseSignatureResponse_fields:
  assumes "parseSignatureResponse blob = Some sg"
  shows "\<exists>skip lenInfo k rlb rLen derAt rAt.
           derAt = 1 + skip + 1 + lenInfo \<and> rAt = derAt + 1 + k + 1 + rlb
         \<and> byteAt blob (Some 0) = Some 0x7c \<and> parseLengthBytes blob (Some 1) = Inr skip
         \<and> byteAt blob (Some (1 + skip)) = Some 0x82
         \<and> parseLengthBytes blob (Some (1 + skip + 1)) = Inr lenInfo
         \<and> byteAt blob (Some derAt) = Some 0x30 \<and> parseLengthBytes blob (Some (derAt + 1)) = Inr k
         \<and> byteAt blob (Some (derAt + 1 + k)) = Some 0x02
         \<and> parseLengthBytes blob (Some (derAt + 1 + k + 1)) = Inr rlb
         \<and> parseLength blob (Some (derAt + 1 + k + 1)) = Inr (Some rLen)
         \<and> 0 \<le> rLen \<and> byteAt blob (Some (rAt + rLen)) = Some 0x02
         \<and> rAt + rLen + 1 < int (length blob)
         \<and> sig_r sg = toHex (normalizeTo32Bytes (take (nat rLen) (drop (nat rAt) blob)))"
proof -
  from assms have t0: "byteAt blob (Some 0) = Some 0x7c"
    by (auto simp: parseSignatureResponse_def split: if_splits)
  from assms obtain skip where sk: "parseLengthBytes blob (Some 1) = Inr skip"
    by (auto simp: parseSignatureResponse_def split: if_splits sum.splits)
  then have sk1: "1 \<le> skip" using parseLengthBytes_InrD by blast
  from assms sk have t1: "byteAt blob (Some (1 + skip)) = Some 0x82"
    by (auto simp: parseSignatureResponse_def Let_def split: if_splits sum.splits)
  from assms sk obtain lenInfo sigLen where
    li: "parseLengthBytes blob (Some (1 + skip + 1)) = Inr lenInfo"
    and sl: "parseLength blob (Some (1 + skip + 1)) = Inr sigLen"
    by (auto simp: parseSignatureResponse_def Let_def split: if_splits sum.splits)
  have li1: "1 \<le> lenInfo" using li parseLengthBytes_InrD by blast
  define derAt where "derAt = 1 + skip + 1 + lenInfo"
  define sigDer where "sigDer = slice blob (Some derAt) (addNum (Some derAt) sigLen)"
  from assms sk li sl obtain rBuf sBuf where der: "parseDerSignature sigDer = Inr (rBuf, sBuf)"
    and r: "sig_r sg = padStart 64 (CHR ''0'') (toHex rBuf)"
    by (auto simp: parseSignatureResponse_def Let_def sigDer_def derAt_def split: if_splits sum.splits prod.splits)
  have d0: "0 \<le> derAt" using sk1 li1 by (simp add: derAt_def)
  from slice_from [OF d0, of blob "addNum (Some derAt) sigLen"] obtain n where
    n: "sigDer = take n (drop (nat derAt) blob)" by (auto simp: sigDer_def)
  from der obtain rRaw sRaw where raw: "derIntegers sigDer = Inr (rRaw, sRaw)"
    and rn: "rBuf = normalizeTo32Bytes rRaw"
    by (auto simp: parseDerSignature_def split: sum.splits prod.splits)
  from derIntegers_fields [OF raw] obtain k rlb rLen where
    f: "byteAt sigDer (Some 0) = Some 0x30" "parseLengthBytes sigDer (Some 1) = Inr k"
      "byteAt sigDer (Some (1 + k)) = Some 0x02"
      "parseLengthBytes sigDer (Some (1 + k + 1)) = Inr rlb"
      "parseLength sigDer (Some (1 + k + 1)) = Inr (Some rLen)"
      "1 \<le> k" "1 \<le> rlb" "0 \<le> rLen"
      "rRaw = take (nat rLen) (drop (nat (1 + k + 1 + rlb)) sigDer)"
      "byteAt sigDer (Some (1 + k + 1 + rlb + rLen)) = Some 0x02"
      "1 + k + 1 + rlb + rLen + 1 < int (length sigDer)"
    by blast
  define rAt where "rAt = derAt + 1 + k + 1 + rlb"
  have nd: "int (nat derAt) = derAt" using d0 by simp
  have b0: "byteAt blob (Some derAt) = Some 0x30"
    using byteAt_take_drop [of n "nat derAt" blob 0] f(1) n nd by simp
  have b1: "parseLengthBytes blob (Some (derAt + 1)) = Inr k"
    using parseLengthBytes_take_drop [of n "nat derAt" blob 1 k] f(2) n nd by simp
  have b2: "byteAt blob (Some (derAt + 1 + k)) = Some 0x02"
    using byteAt_take_drop [of n "nat derAt" blob "1 + k"] f(3) n nd by (simp add: add.assoc)
  have b3: "parseLengthBytes blob (Some (derAt + 1 + k + 1)) = Inr rlb"
    using parseLengthBytes_take_drop [of n "nat derAt" blob "1 + k + 1" rlb] f(4) n nd by (simp add: add.assoc)
  have ins: "1 + k + 1 + rlb \<le> int (length (take n (drop (nat derAt) blob)))"
    using f(8,11) n by simp
  have b4: "parseLength blob (Some (derAt + 1 + k + 1)) = Inr (Some rLen)"
    using parseLength_take_drop [of n "nat derAt" blob "1 + k + 1" rLen rlb] f(4,5) ins n nd
    by (simp add: add.assoc)
  have b5: "byteAt blob (Some (rAt + rLen)) = Some 0x02"
    using byteAt_take_drop [of n "nat derAt" blob "1 + k + 1 + rlb + rLen"] f(10) n nd
    by (simp add: rAt_def add.assoc)
  have "0 < int (length sigDer)" using f(6,7,8,11) by linarith
  then have "0 < length sigDer" by simp
  then have "nat derAt < length blob" using n by simp
  then have "int (length sigDer) \<le> int (length blob) - derAt"
    using n d0 by simp
  then have b6: "rAt + rLen + 1 < int (length blob)" using f(11) by (simp add: rAt_def)
  have "int (nat (1 + k + 1 + rlb) + nat rLen) \<le> int (length sigDer)"
    using f(6,7,8,11) by simp
  then have "nat (1 + k + 1 + rlb) + nat rLen \<le> length (take n (drop (nat derAt) blob))"
    unfolding n by linarith
  from take_drop_inside [OF this] have "rRaw = take (nat rLen) (drop (nat derAt + nat (1 + k + 1 + rlb)) blob)"
    using f(9) n by simp
  moreover have "nat derAt + nat (1 + k + 1 + rlb) = nat rAt"
    using d0 f(6,7) by (simp add: rAt_def)
  ultimately have rr: "rRaw = take (nat rLen) (drop (nat rAt) blob)" by simp
  have "length (toHex rBuf) = 64" using rn normalizeTo32Bytes_length by (simp add: length_toHex)
  then have b7: "sig_r sg = toHex (normalizeTo32Bytes (take (nat rLen) (drop (nat rAt) blob)))"
    using r rn rr by (simp add: padStart_def)
  show ?thesis
    using derAt_def rAt_def t0 sk t1 li b0 b1 b2 b3 b4 f(8) b5 b6 b7 by blast
qed

lemma parsePublicKeyResponse_fields:
  assumes "parsePublicKeyResponse blob = Some pk"
  shows "\<exists>skip lenInfo pubKeyLen keyAt.
           keyAt = 2 + skip + 1 + lenInfo
         \<and> byteAt blob (Some 0) = Some 0x7f \<and> byteAt blob (Some 1) = Some 0x49
         \<and> parseLengthBytes blob (Some 2) = Inr skip \<and> byteAt blob (Some (2 + skip)) = Some 0x86
         \<and> parseLengthBytes blob (Some (2 + skip + 1)) = Inr lenInfo
         \<and> parseLength blob (Some (2 + skip + 1)) = Inr (Some pubKeyLen) \<and> 65 \<le> pubKeyLen
         \<and> keyAt + 65 \<le> int (length blob)
         \<and> byteAt blob (Some keyAt) = Some 0x04
         \<and> publicKeyHex pk = toHex (take 65 (drop (nat keyAt) blob))
         \<and> pk_x pk = toHex (take 32 (drop (nat keyAt + 1) blob))
         \<and> pk_y pk = toHex (take 32 (drop (nat keyAt + 33) blob))"
proof -
  from assms have t0: "byteAt blob (Some 0) = Some 0x7f" "byteAt blob (Some 1) = Some 0x49"
    by (auto simp: parsePublicKeyResponse_def split: if_splits)
  from assms obtain skip where sk: "parseLengthBytes blob (Some 2) = Inr skip"
    by (auto simp: parsePublicKeyResponse_def split: if_splits sum.splits)
  then have sk1: "1 \<le> skip" using parseLengthBytes_InrD by blast
  from assms sk have t1: "byteAt blob (Some (2 + skip)) = Some 0x86"
    by (auto simp: parsePublicKeyResponse_def Let_def split: if_splits sum.splits)
  from assms sk obtain lenInfo pubKeyLen where
    li: "parseLengthBytes blob (Some (2 + skip + 1)) = Inr lenInfo"
    and pl: "parseLength blob (Some (2 + skip + 1)) = Inr pubKeyLen"
    by (auto simp: parsePublicKeyResponse_def Let_def split: if_splits sum.splits)
  have li1: "1 \<le> lenInfo" using li parseLengthBytes_InrD by blast
  define keyAt where "keyAt = 2 + skip + 1 + lenInfo"
  define key where "key = slice blob (Some keyAt) (addNum (Some keyAt) pubKeyLen)"
  from assms sk li pl have len: "length key = 65" and tag: "byteAt key (Some 0) = Some 0x04"
    and hex: "publicKeyHex pk = toHex key"
    and xy: "pk_x pk = toHex (slice key (Some 1) (Some 33))" "pk_y pk = toHex (slice key (Some 33) (Some 65))"
    by (auto simp: parsePublicKeyResponse_def Let_def key_def keyAt_def split: if_splits sum.splits)
  have o: "0 \<le> keyAt" using sk1 li1 by (simp add: keyAt_def)
  from slice_65 [OF o, of blob "addNum (Some keyAt) pubKeyLen"] len
  have fit: "nat keyAt + 65 \<le> length blob" and key: "key = take 65 (drop (nat keyAt) blob)"
    by (simp_all add: key_def)
  obtain L where L: "pubKeyLen = Some L" "65 \<le> L"
  proof (cases pubKeyLen)
    case None
    then have "key = []" by (simp add: key_def addNum_def slice_def adjustOffset_def Let_def)
    then show ?thesis using len by simp
  next
    case (Some L)
    have "65 \<le> L"
    proof (rule ccontr)
      assume "\<not> 65 \<le> L"
      moreover have "0 \<le> L" using pl Some parseLength_nonneg by blast
      ultimately have "length key < 65" using Some o
        by (auto simp: key_def addNum_def slice_def adjustOffset_def Let_def split: if_splits)
      then show False using len by simp
    qed
    then show ?thesis using Some that by blast
  qed
  have b0: "byteAt blob (Some keyAt) = Some 0x04"
    using byteAt_take_drop [of 65 "nat keyAt" blob 0] tag key o by simp
  have x: "slice key (Some 1) (Some 33) = take 32 (drop (nat keyAt + 1) blob)"
    using slice_inside [of 1 33 key] len take_drop_inside [of 1 32 65 "nat keyAt" blob] key fit by simp
  have y: "slice key (Some 33) (Some 65) = take 32 (drop (nat keyAt + 33) blob)"
    using slice_inside [of 33 65 key] len take_drop_inside [of 33 32 65 "nat keyAt" blob] key fit by simp
  have fit': "keyAt + 65 \<le> int (length blob)" using fit o by simp
  show ?thesis
    using keyAt_def t0 sk t1 li pl L fit' b0 hex key xy x y by (metis (no_types, lifting))
qed

lemma firstHit_SomeD: "firstHit body xs = Some res \<Longrightarrow> \<exists>i\<in>set xs. body i = Some res"
  by (induction xs) (auto split: option.splits)

lemma parsePublicKeyFromCert_hit:
  assumes "parsePublicKeyFromCert blob = Some pk"
  shows "\<exists>i. 0 \<le> i \<and> i + 68 \<le> int (length blob) \<and> (bitStringAt blob i = Some pk \<or> fallbackAt blob i = Some pk)"
proof -
  have fb: "parsePublicKeyFallback blob = Some pk \<Longrightarrow> ?thesis"
  proof -
    assume "parsePublicKeyFallback blob = Some pk"
    then have "firstHit (fallbackAt blob) [0 .. int (length blob) - 67 - 1] = Some pk"
      by (simp add: parsePublicKeyFallback_def)
    from firstHit_SomeD [OF this]
    obtain i where "i \<in> set [0 .. int (length blob) - 67 - 1]" "fallbackAt blob i = Some pk"
      by blast
    then show ?thesis by (intro exI [of _ i]) auto
  qed
  show ?thesis
  proof (cases "findEcOid blob")
    case None
    then show ?thesis using assms fb by (simp add: parsePublicKeyFromCert_def)
  next
    case (Some j)
    then have j: "0 \<le> j" by (rule findEcOid_nonneg)
    show ?thesis
    proof (cases "bitStringScan blob j")
      case None
      then show ?thesis using assms Some fb by (simp add: parsePublicKeyFromCert_def)
    next
      case (Some res)
      then have "bitStringScan blob j = Some pk" using assms \<open>findEcOid blob = Some j\<close>
        by (simp add: parsePublicKeyFromCert_def)
      then have "firstHit (bitStringAt blob) [j + int (length ecPubKeyOid) .. int (length blob) - 67 - 1] = Some pk"
        by (simp add: bitStringScan_def)
      from firstHit_SomeD [OF this]
      obtain i where "i \<in> set [j + int (length ecPubKeyOid) .. int (length blob) - 67 - 1]"
        "bitStringAt blob i = Some pk"
        by blast
      then show ?thesis using j by (intro exI [of _ i]) auto
    qed
  qed
qed

lemma short_form_hit:
  assumes hit: "bitStringAt blob i = Some pk \<or> fallbackAt blob i = Some pk"
    and i0: "0 \<le> i" and fit: "i + 68 \<le> int (length blob)"
  shows "byteAt blob (Some i) = Some 0x03
       \<and> (byteAt blob (Some (i + 1)) = Some 0x42 \<longrightarrow>
            byteAt blob (Some (i + 2)) = Some 0x00 \<and> byteAt blob (Some (i + 3)) = Some 0x04
          \<and> publicKeyHex pk = toHex (take 65 (drop (nat i + 3) blob))
          \<and> pk_x pk = toHex (take 32 (drop (nat i + 4) blob))
          \<and> pk_y pk = toHex (take 32 (drop (nat i + 36) blob)))"
proof -
  have tag: "byteAt blob (Some i) = Some 0x03"
    using hit by (auto simp: bitStringAt_def fallbackAt_def split: if_splits)
  have s: "slice blob (Some (i + 3)) (Some (i + 68)) = take 65 (drop (nat i + 3) blob)"
    "slice blob (Some (i + 4)) (Some (i + 36)) = take 32 (drop (nat i + 4) blob)"
    "slice blob (Some (i + 36)) (Some (i + 68)) = take 32 (drop (nat i + 36) blob)"
    using slice_inside [of "i + 3" "i + 68" blob] slice_inside [of "i + 4" "i + 36" blob]
      slice_inside [of "i + 36" "i + 68" blob] i0 fit
    by (simp_all add: nat_add_distrib)
  have "byteAt blob (Some (i + 1)) = Some 0x42 \<longrightarrow>
            byteAt blob (Some (i + 2)) = Some 0x00 \<and> byteAt blob (Some (i + 3)) = Some 0x04
          \<and> publicKeyHex pk = toHex (take 65 (drop (nat i + 3) blob))
          \<and> pk_x pk = toHex (take 32 (drop (nat i + 4) blob))
          \<and> pk_y pk = toHex (take 32 (drop (nat i + 36) blob))"
  proof
    assume f: "byteAt blob (Some (i + 1)) = Some 0x42"
    from hit show "byteAt blob (Some (i + 2)) = Some 0x00 \<and> byteAt blob (Some (i + 3)) = Some 0x04
          \<and> publicKeyHex pk = toHex (take 65 (drop (nat i + 3) blob))
          \<and> pk_x pk = toHex (take 32 (drop (nat i + 4) blob))
          \<and> pk_y pk = toHex (take 32 (drop (nat i + 36) blob))"
    proof
      assume "bitStringAt blob i = Some pk"
      then show ?thesis using f tag s
        by (auto simp: bitStringAt_def Let_def add.assoc split: if_splits)
    next
      assume "fallbackAt blob i = Some pk"
      then show ?thesis using f tag s
        by (auto simp: fallbackAt_def split: if_splits)
    qed
  qed
  then show ?thesis using tag by blast
qed

lemma uint_66: "uint (b :: byte) = 66 \<Longrightarrow> b = 0x42"
  by (simp add: word_uint_eq_iff)

lemma long_form_hit:
  assumes hit: "bitStringAt blob i = Some pk \<or> fallbackAt blob i = Some pk"
    and i0: "0 \<le> i"
  shows "(byteAt blob (Some (i + 1)) = Some 0x81 \<and> i + 69 \<le> int (length blob) \<longrightarrow>
            byteAt blob (Some (i + 2)) = Some 0x42
          \<and> byteAt blob (Some (i + 3)) = Some 0x00 \<and> byteAt blob (Some (i + 4)) = Some 0x04
          \<and> publicKeyHex pk = toHex (take 65 (drop (nat i + 4) blob))
          \<and> pk_x pk = toHex (take 32 (drop (nat i + 5) blob))
          \<and> pk_y pk = toHex (take 32 (drop (nat i + 37) blob)))
       \<and> (byteAt blob (Some (i + 1)) = Some 0x82 \<and> i + 70 \<le> int (length blob) \<longrightarrow>
            byteAt blob (Some (i + 4)) = Some 0x00 \<and> byteAt blob (Some (i + 5)) = Some 0x04
          \<and> publicKeyHex pk = toHex (take 65 (drop (nat i + 5) blob))
          \<and> pk_x pk = toHex (take 32 (drop (nat i + 6) blob))
          \<and> pk_y pk = toHex (take 32 (drop (nat i + 38) blob)))"
proof (intro conjI impI)
  assume a: "byteAt blob (Some (i + 1)) = Some 0x81 \<and> i + 69 \<le> int (length blob)"
  then have f: "byteAt blob (Some (i + 1)) = Some 0x81" and fit: "i + 69 \<le> int (length blob)" by simp_all
  have s: "slice blob (Some (i + 4)) (Some (i + 69)) = take 65 (drop (nat i + 4) blob)"
    "slice blob (Some (i + 5)) (Some (i + 37)) = take 32 (drop (nat i + 5) blob)"
    "slice blob (Some (i + 37)) (Some (i + 69)) = take 32 (drop (nat i + 37) blob)"
    using slice_inside [of "i + 4" "i + 69" blob] slice_inside [of "i + 5" "i + 37" blob]
      slice_inside [of "i + 37" "i + 69" blob] i0 fit
    by (simp_all add: nat_add_distrib)
  from hit have r: "byteAt blob (Some (i + 2)) = Some 0x42
          \<and> byteAt blob (Some (i + 3)) = Some 0x00 \<and> byteAt blob (Some (i + 4)) = Some 0x04
          \<and> publicKeyHex pk = toHex (take 65 (drop (nat i + 4) blob))
          \<and> pk_x pk = toHex (take 32 (drop (nat i + 5) blob))
          \<and> pk_y pk = toHex (take 32 (drop (nat i + 37) blob))"
  proof
    assume "bitStringAt blob i = Some pk"
    then show ?thesis using f s
      by (auto simp: bitStringAt_def Let_def add.assoc split: if_splits dest: uint_66)
  next
    assume "fallbackAt blob i = Some pk"
    then show ?thesis using f s
      by (auto simp: fallbackAt_def split: if_splits)
  qed
  from r show "byteAt blob (Some (i + 2)) = Some 0x42" by simp
  from r show "byteAt blob (Some (i + 3)) = Some 0x00" by simp
  from r show "byteAt blob (Some (i + 4)) = Some 0x04" by simp
  from r show "publicKeyHex pk = toHex (take 65 (drop (nat i + 4) blob))" by simp
  from r show "pk_x pk = toHex (take 32 (drop (nat i + 5) blob))" by simp
  from r show "pk_y pk = toHex (take 32 (drop (nat i + 37) blob))" by simp
next
  assume a: "byteAt blob (Some (i + 1)) = Some 0x82 \<and> i + 70 \<le> int (length blob)"
  then have f: "byteAt blob (Some (i + 1)) = Some 0x82" and fit: "i + 70 \<le> int (length blob)" by simp_all
  have s: "slice blob (Some (i + 5)) (Some (i + 70)) = take 65 (drop (nat i + 5) blob)"
    "slice blob (Some (i + 6)) (Some (i + 38)) = take 32 (drop (nat i + 6) blob)"
    "slice blob (Some (i + 38)) (Some (i + 70)) = take 32 (drop (nat i + 38) blob)"
    using slice_inside [of "i + 5" "i + 70" blob] slice_inside [of "i + 6" "i + 38" blob]
      slice_inside [of "i + 38" "i + 70" blob] i0 fit
    by (simp_all add: nat_add_distrib)
  from hit have r: "byteAt blob (Some (i + 4)) = Some 0x00 \<and> byteAt blob (Some (i + 5)) = Some 0x04
          \<and> publicKeyHex pk = toHex (take 65 (drop (nat i + 5) blob))
          \<and> pk_x pk = toHex (take 32 (drop (nat i + 6) blob))
          \<and> pk_y pk = toHex (take 32 (drop (nat i + 38) blob))"
  proof
    assume "bitStringAt blob i = Some pk"
    then show ?thesis using f s
      by (simp add: bitStringAt_def Let_def add.assoc split: if_splits) auto
  next
    assume "fallbackAt blob i = Some pk"
    then show ?thesis using f
      by (auto simp: fallbackAt_def split: if_splits)
  qed
  from r show "byteAt blob (Some (i + 4)) = Some 0x00" by simp
  from r show "byteAt blob (Some (i + 5)) = Some 0x04" by simp
  from r show "publicKeyHex pk = toHex (take 65 (drop (nat i + 5) blob))" by simp
  from r show "pk_x pk = toHex (take 32 (drop (nat i + 6) blob))" by simp
  from r show "pk_y pk = toHex (take 32 (drop (nat i + 38) blob))" by simp
qed

lemma findEcOid_absent:
  assumes "0x06 \<notin> set blob"
  shows "findEcOid blob = None"
proof -
  have "\<not> (\<exists>i \<in> set [0 .. int (length blob) - int (length ecPubKeyOid) - 1].
            slice blob (Some i) (Some (i + int (length ecPubKeyOid))) = ecPubKeyOid)"
  proof
    assume "\<exists>i \<in> set [0 .. int (length blob) - int (length ecPubKeyOid) - 1].
            slice blob (Some i) (Some (i + int (length ecPubKeyOid))) = ecPubKeyOid"
    then obtain i where i: "0 \<le> i" "i + 9 < int (length blob)"
      and eq: "slice blob (Some i) (Some (i + 9)) = ecPubKeyOid"
      by (auto simp: ecPubKeyOid_def)
    from slice_inside [of i "i + 9" blob] i have "slice blob (Some i) (Some (i + 9)) = take 9 (drop (nat i) blob)"
      by simp
    with eq have "take 9 (drop (nat i) blob) = ecPubKeyOid" by simp
    then have "hd (take 9 (drop (nat i) blob)) = 0x06" by (simp add: ecPubKeyOid_def)
    moreover have "hd (take 9 (drop (nat i) blob)) = blob ! nat i"
      using i by (simp add: hd_drop_conv_nth)
    moreover have "blob ! nat i \<in> set blob" using i by simp
    ultimately show False using assms by simp
  qed
  then show ?thesis by (simp add: findEcOid_def find_None_iff)
qed

text \<open>
  Claim C8, as the code has it. The length decoders throw when the byte at their offset
  lies beyond the blob, and a parser returns \<^verbatim>\<open>null\<close> unless every field that it reads stands
  inside the blob, at the offset that the length bytes before it give. For the signature
  response these are tag 7C and its length byte, tag 82 and its length byte, and in the
  signature the tag 30, its length byte, tag 02, the length of r, all the bytes of r (the
  returned r is made of them), tag 02 and the first length byte of s. For the
  key-generation response these are the tags 7F 49, the length byte, tag 86, a length of
  at least 65, and all 65 bytes of the point: they are the key returned. For the
  certificate these are a BIT STRING tag at an index that leaves 68 bytes, and, after the
  length byte 42, the bytes 00 04 and the 64 bytes of x and y: they are the key returned.
  The same holds after the length bytes 81 42 at an index that leaves 69 bytes, and for a
  length after 82 at an index that leaves 70 bytes.
\<close>

theorem parsers_reject_missing_fields:
  "(\<forall>off. int (length blob) \<le> off \<longrightarrow>
       parseLength blob (Some off) = Inl ''Unsupported length encoding''
     \<and> parseLengthBytes blob (Some off) = Inl ''Unsupported length encoding'')
   \<and> (\<forall>sg. parseSignatureResponse blob = Some sg \<longrightarrow>
         (\<exists>skip lenInfo k rlb rLen derAt rAt.
             derAt = 1 + skip + 1 + lenInfo \<and> rAt = derAt + 1 + k + 1 + rlb
           \<and> byteAt blob (Some 0) = Some 0x7c \<and> parseLengthBytes blob (Some 1) = Inr skip
           \<and> byteAt blob (Some (1 + skip)) = Some 0x82
           \<and> parseLengthBytes blob (Some (1 + skip + 1)) = Inr lenInfo
           \<and> byteAt blob (Some derAt) = Some 0x30 \<and> parseLengthBytes blob (Some (derAt + 1)) = Inr k
           \<and> byteAt blob (Some (derAt + 1 + k)) = Some 0x02
           \<and> parseLengthBytes blob (Some (derAt + 1 + k + 1)) = Inr rlb
           \<and> parseLength blob (Some (derAt + 1 + k + 1)) = Inr (Some rLen)
           \<and> 0 \<le> rLen \<and> byteAt blob (Some (rAt + rLen)) = Some 0x02
           \<and> rAt + rLen + 1 < int (length blob)
           \<and> sig_r sg = toHex (normalizeTo32Bytes (take (nat rLen) (drop (nat rAt) blob)))))
   \<and> (\<forall>pubKey. parsePublicKeyResponse blob = Some pubKey \<longrightarrow>
         (\<exists>skip lenInfo pubKeyLen keyAt.
             keyAt = 2 + skip + 1 + lenInfo
           \<and> byteAt blob (Some 0) = Some 0x7f \<and> byteAt blob (Some 1) = Some 0x49
           \<and> parseLengthBytes blob (Some 2) = Inr skip \<and> byteAt blob (Some (2 + skip)) = Some 0x86
           \<and> parseLengthBytes blob (Some (2 + skip + 1)) = Inr lenInfo
           \<and> parseLength blob (Some (2 + skip + 1)) = Inr (Some pubKeyLen) \<and> 65 \<le> pubKeyLen
           \<and> keyAt + 65 \<le> int (length blob)
           \<and> byteAt blob (Some keyAt) = Some 0x04
           \<and> publicKeyHex pubKey = toHex (take 65 (drop (nat keyAt) blob))
           \<and> pk_x pubKey = toHex (take 32 (drop (nat keyAt + 1) blob))
           \<and> pk_y pubKey = toHex (take 32 (drop (nat keyAt + 33) blob))))
   \<and> (\<forall>pubKey. parsePublicKeyFromCert blob = Some pubKey \<longrightarrow>
         (\<exists>i. 0 \<le> i \<and> i + 68 \<le> int (length blob)
           \<and> (bitStringAt blob i = Some pubKey \<or> fallbackAt blob i = Some pubKey)
           \<and> byteAt blob (Some i) = Some 0x03
           \<and> (byteAt blob (Some (i + 1)) = Some 0x42 \<longrightarrow>
                byteAt blob (Some (i + 2)) = Some 0x00 \<and> byteAt blob (Some (i + 3)) = Some 0x04
              \<and> publicKeyHex pubKey = toHex (take 65 (drop (nat i + 3) blob))
              \<and> pk_x pubKey = toHex (take 32 (drop (nat i + 4) blob))
              \<and> pk_y pubKey = toHex (take 32 (drop (nat i + 36) blob)))
           \<and> (byteAt blob (Some (i + 1)) = Some 0x81 \<and> i + 69 \<le> int (length blob) \<longrightarrow>
                byteAt blob (Some (i + 2)) = Some 0x42
              \<and> byteAt blob (Some (i + 3)) = Some 0x00 \<and> byteAt blob (Some (i + 4)) = Some 0x04
              \<and> publicKeyHex pubKey = toHex (take 65 (drop (nat i + 4) blob))
              \<and> pk_x pubKey = toHex (take 32 (drop (nat i + 5) blob))
              \<and> pk_y pubKey = toHex (take 32 (drop (nat i + 37) blob)))
           \<and> (byteAt blob (Some (i + 1)) = Some 0x82 \<and> i + 70 \<le> int (length blob) \<longrightarrow>
                byteAt blob (Some (i + 4)) = Some 0x00 \<and> byteAt blob (Some (i + 5)) = Some 0x04
              \<and> publicKeyHex pubKey = toHex (take 65 (drop (nat i + 5) blob))
              \<and> pk_x pubKey = toHex (take 32 (drop (nat i + 6) blob))
              \<and> pk_y pubKey = toHex (take 32 (drop (nat i + 38) blob)))))"
  (is "?L \<and> ?S \<and> ?K \<and> ?C")
proof -
  have a: ?L using length_beyond by blast
  have b: ?S using parseSignatureResponse_fields by blast
  have c: ?K using parsePublicKeyResponse_fields by blast
  have d: ?C
  proof (intro allI impI)
    fix pubKey assume "parsePublicKeyFromCert blob = Some pubKey"
    from parsePublicKeyFromCert_hit [OF this] obtain i where
      i: "0 \<le> i" "i + 68 \<le> int (length blob)" "bitStringAt blob i = Some pubKey \<or> fallbackAt blob i = Some pubKey"
      by blast
    from short_form_hit [OF i(3) i(1) i(2)] long_form_hit [OF i(3) i(1)] i
    show "\<exists>i. 0 \<le> i \<and> i + 68 \<le> int (length blob)
           \<and> (bitStringAt blob i = Some pubKey \<or> fallbackAt blob i = Some pubKey)
           \<and> byteAt blob (Some i) = Some 0x03
           \<and> (byteAt blob (Some (i + 1)) = Some 0x42 \<longrightarrow>
                byteAt blob (Some (i + 2)) = Some 0x00 \<and> byteAt blob (Some (i + 3)) = Some 0x04
              \<and> publicKeyHex pubKey = toHex (take 65 (drop (nat i + 3) blob))
              \<and> pk_x pubKey = toHex (take 32 (drop (nat i + 4) blob))
              \<and> pk_y pubKey = toHex (take 32 (drop (nat i + 36) blob)))
           \<and> (byteAt blob (Some (i + 1)) = Some 0x81 \<and> i + 69 \<le> int (length blob) \<longrightarrow>
                byteAt blob (Some (i + 2)) = Some 0x42
              \<and> byteAt blob (Some (i + 3)) = Some 0x00 \<and> byteAt blob (Some (i + 4)) = Some 0x04
              \<and> publicKeyHex pubKey = toHex (take 65 (drop (nat i + 4) blob))
              \<and> pk_x pubKey = toHex (take 32 (drop (nat i + 5) blob))
              \<and> pk_y pubKey = toHex (take 32 (drop (nat i + 37) blob)))
           \<and> (byteAt blob (Some (i + 1)) = Some 0x82 \<and> i + 70 \<le> int (length blob) \<longrightarrow>
                byteAt blob (Some (i + 4)) = Some 0x00 \<and> byteAt blob (Some (i + 5)) = Some 0x04
              \<and> publicKeyHex pubKey = toHex (take 65 (drop (nat i + 5) blob))
              \<and> pk_x pubKey = toHex (take 32 (drop (nat i + 6) blob))
              \<and> pk_y pubKey = toHex (take 32 (drop (nat i + 38) blob)))"
      by (intro exI [of _ i]) blast
  qed
  show ?thesis by (rule conjI [OF a conjI [OF b conjI [OF c d]]])
qed

theorem parsers_reject_missing_fields_witness:
  "parseSignatureResponse [0x7c, 0x0e, 0x82, 0x0c, 0x30, 0x0a, 0x02, 0x04, 0x01, 0x02, 0x03, 0x04, 0x02, 0x02, 0x56, 0x78]
   = Some \<lparr> signatureDer = ''300a02040102030402025678'',
            sig_r = ''0000000000000000000000000000000000000000000000000000000001020304'',
            sig_s = ''0000000000000000000000000000000000000000000000000000000000005678'' \<rparr>
   \<and> ''0000000000000000000000000000000000000000000000000000000001020304''
       = toHex (normalizeTo32Bytes (take 4 (drop 8
           [0x7c, 0x0e, 0x82, 0x0c, 0x30, 0x0a, 0x02, 0x04, 0x01, 0x02, 0x03, 0x04, 0x02, 0x02, 0x56, 0x78])))
   \<and> parseSignatureResponse [0x7c, 0x0e, 0x82, 0x0c, 0x30, 0x0a, 0x02, 0x04, 0x01, 0x02, 0x03, 0x04] = None
   \<and> parseSignatureResponse [0x7c, 0x0e, 0x82, 0x0c, 0x30, 0x0a, 0x02, 0x04, 0x01, 0x02, 0x03, 0x04, 0x02] = None
   \<and> parsePublicKeyResponse keyAnswer
     = Some \<lparr> publicKeyHex = toHex (0x04 # replicate 32 0x11 @ replicate 32 0x22),
              pk_x = toHex (replicate 32 0x11), pk_y = toHex (replicate 32 0x22) \<rparr>
   \<and> toHex (0x04 # replicate 32 0x11 @ replicate 32 0x22) = toHex (take 65 (drop 5 keyAnswer))
   \<and> parsePublicKeyResponse ([0x7f, 0x49, 0x81, 0x44, 0x86, 0x81, 0x41, 0x04] @ replicate 32 0x11 @ replicate 31 0x22) = None
   \<and> parsePublicKeyFromCert (spkiPrefix @ replicate 32 0x11 @ replicate 32 0x22)
     = Some \<lparr> publicKeyHex = toHex (0x04 # replicate 32 0x11 @ replicate 32 0x22),
              pk_x = toHex (replicate 32 0x11), pk_y = toHex (replicate 32 0x22) \<rparr>
   \<and> parsePublicKeyFromCert ([0x03, 0x42, 0x00, 0x04] @ replicate 32 0x11 @ replicate 31 0x22) = None
   \<and> parseLength [0x30, 0x0a, 0x02] (Some 3) = Inl ''Unsupported length encoding''
   \<and> parseLengthBytes [0x30, 0x0a, 0x02] (Some 3) = Inl ''Unsupported length encoding''"
  (is "parseSignatureResponse ?sig = Some ?sg \<and> ?rhex = toHex (normalizeTo32Bytes (take 4 (drop 8 ?sig)))
       \<and> parseSignatureResponse ?sig12 = None \<and> parseSignatureResponse ?sig13 = None
       \<and> parsePublicKeyResponse keyAnswer = Some ?pk \<and> ?khex = toHex (take 65 (drop 5 keyAnswer))
       \<and> parsePublicKeyResponse ?key71 = None
       \<and> parsePublicKeyFromCert ?cert = Some ?pk \<and> parsePublicKeyFromCert ?cert67 = None
       \<and> parseLength ?b3 (Some 3) = Inl ?err \<and> parseLengthBytes ?b3 (Some 3) = Inl ?err")
proof -
  note ev = parseLength_def parseLengthBytes_def eval_buf
  have sigOk: "parseSignatureResponse ?sig = Some ?sg"
    by (simp add: parseSignatureResponse_def eval_buf eval_hex eval_der)
  have keyOk: "parsePublicKeyResponse keyAnswer = Some ?pk" by (rule keyAnswer_parse)
  have certOk: "parsePublicKeyFromCert ?cert = Some ?pk"
    using spki_parse [of "replicate 32 0x11 @ replicate 32 0x22"] by simp
  \<comment> \<open>the accepted signature response: every field stands in the blob\<close>
  from parsers_reject_missing_fields [of ?sig] sigOk
  obtain skip lenInfo k rlb rLen derAt rAt where
    f: "derAt = 1 + skip + 1 + lenInfo" "rAt = derAt + 1 + k + 1 + rlb"
       "parseLengthBytes ?sig (Some 1) = Inr skip"
       "parseLengthBytes ?sig (Some (1 + skip + 1)) = Inr lenInfo"
       "parseLengthBytes ?sig (Some (derAt + 1)) = Inr k"
       "parseLengthBytes ?sig (Some (derAt + 1 + k + 1)) = Inr rlb"
       "parseLength ?sig (Some (derAt + 1 + k + 1)) = Inr (Some rLen)"
       "sig_r ?sg = toHex (normalizeTo32Bytes (take (nat rLen) (drop (nat rAt) ?sig)))"
    by blast
  have "parseLengthBytes ?sig (Some 1) = Inr 1" by (simp add: ev)
  with f(3) have skip: "skip = 1" by simp
  have "parseLengthBytes ?sig (Some 3) = Inr 1" by (simp add: ev)
  with f(4) skip have li: "lenInfo = 1" by simp
  have derAt: "derAt = 4" using f(1) skip li by simp
  have "parseLengthBytes ?sig (Some 5) = Inr 1" by (simp add: ev)
  with f(5) derAt have k: "k = 1" by simp
  have "parseLengthBytes ?sig (Some 7) = Inr 1" "parseLength ?sig (Some 7) = Inr (Some 4)" by (simp_all add: ev)
  with f(6,7) derAt k have r: "rlb = 1" "rLen = 4" by simp_all
  have rAt: "rAt = 8" using f(2) derAt k r by simp
  have rhex: "?rhex = toHex (normalizeTo32Bytes (take 4 (drop 8 ?sig)))"
    using f(8) unfolding rAt r by simp
  \<comment> \<open>the same response cut before the tag of s, and cut before the length of s\<close>
  have sig12: "parseSignatureResponse ?sig12 = None"
  proof (cases "parseSignatureResponse ?sig12")
    case (Some sg)
    from parsers_reject_missing_fields [of ?sig12] Some
    obtain skip lenInfo k rlb rLen derAt rAt where
      g: "derAt = 1 + skip + 1 + lenInfo" "rAt = derAt + 1 + k + 1 + rlb"
         "parseLengthBytes ?sig12 (Some 1) = Inr skip"
         "parseLengthBytes ?sig12 (Some (1 + skip + 1)) = Inr lenInfo"
         "parseLengthBytes ?sig12 (Some (derAt + 1)) = Inr k"
         "parseLengthBytes ?sig12 (Some (derAt + 1 + k + 1)) = Inr rlb"
         "parseLength ?sig12 (Some (derAt + 1 + k + 1)) = Inr (Some rLen)"
         "rAt + rLen + 1 < int (length ?sig12)"
      by blast
    have "parseLengthBytes ?sig12 (Some 1) = Inr 1" by (simp add: ev)
    with g(3) have skip: "skip = 1" by simp
    have "parseLengthBytes ?sig12 (Some 3) = Inr 1" by (simp add: ev)
    with g(4) skip have li: "lenInfo = 1" by simp
    have derAt: "derAt = 4" using g(1) skip li by simp
    have "parseLengthBytes ?sig12 (Some 5) = Inr 1" by (simp add: ev)
    with g(5) derAt have k: "k = 1" by simp
    have "parseLengthBytes ?sig12 (Some 7) = Inr 1" "parseLength ?sig12 (Some 7) = Inr (Some 4)" by (simp_all add: ev)
    with g(6,7) derAt k have r: "rlb = 1" "rLen = 4" by simp_all
    have "rAt = 8" using g(2) derAt k r by simp
    with g(8) r show ?thesis by simp
  qed simp
  have sig13: "parseSignatureResponse ?sig13 = None"
  proof (cases "parseSignatureResponse ?sig13")
    case (Some sg)
    from parsers_reject_missing_fields [of ?sig13] Some
    obtain skip lenInfo k rlb rLen derAt rAt where
      g: "derAt = 1 + skip + 1 + lenInfo" "rAt = derAt + 1 + k + 1 + rlb"
         "parseLengthBytes ?sig13 (Some 1) = Inr skip"
         "parseLengthBytes ?sig13 (Some (1 + skip + 1)) = Inr lenInfo"
         "parseLengthBytes ?sig13 (Some (derAt + 1)) = Inr k"
         "parseLengthBytes ?sig13 (Some (derAt + 1 + k + 1)) = Inr rlb"
         "parseLength ?sig13 (Some (derAt + 1 + k + 1)) = Inr (Some rLen)"
         "rAt + rLen + 1 < int (length ?sig13)"
      by blast
    have "parseLengthBytes ?sig13 (Some 1) = Inr 1" by (simp add: ev)
    with g(3) have skip: "skip = 1" by simp
    have "parseLengthBytes ?sig13 (Some 3) = Inr 1" by (simp add: ev)
    with g(4) skip have li: "lenInfo = 1" by simp
    have derAt: "derAt = 4" using g(1) skip li by simp
    have "parseLengthBytes ?sig13 (Some 5) = Inr 1" by (simp add: ev)
    with g(5) derAt have k: "k = 1" by simp
    have "parseLengthBytes ?sig13 (Some 7) = Inr 1" "parseLength ?sig13 (Some 7) = Inr (Some 4)" by (simp_all add: ev)
    with g(6,7) derAt k have r: "rlb = 1" "rLen = 4" by simp_all
    have "rAt = 8" using g(2) derAt k r by simp
    with g(8) r show ?thesis by simp
  qed simp
  \<comment> \<open>the generated key: its 65 bytes stand at offset 5; a response one byte short is refused\<close>
  from parsers_reject_missing_fields [of keyAnswer] keyOk
  obtain skip' lenInfo' keyAt where
    h: "keyAt = 2 + skip' + 1 + lenInfo'" "parseLengthBytes keyAnswer (Some 2) = Inr skip'"
       "parseLengthBytes keyAnswer (Some (2 + skip' + 1)) = Inr lenInfo'"
       "publicKeyHex ?pk = toHex (take 65 (drop (nat keyAt) keyAnswer))"
    by blast
  have "parseLengthBytes keyAnswer (Some 2) = Inr 1" by (simp add: keyAnswer_def ev)
  with h(2) have skip': "skip' = 1" by simp
  have "parseLengthBytes keyAnswer (Some 4) = Inr 1" by (simp add: keyAnswer_def ev)
  with h(3) skip' have "lenInfo' = 1" by simp
  then have "keyAt = 5" using h(1) skip' by simp
  then have khex: "?khex = toHex (take 65 (drop 5 keyAnswer))" using h(4) by simp
  have key71: "parsePublicKeyResponse ?key71 = None"
  proof (cases "parsePublicKeyResponse ?key71")
    case (Some pubKey)
    from parsers_reject_missing_fields [of ?key71] Some
    obtain skip lenInfo keyAt where
      g: "keyAt = 2 + skip + 1 + lenInfo" "parseLengthBytes ?key71 (Some 2) = Inr skip"
         "parseLengthBytes ?key71 (Some (2 + skip + 1)) = Inr lenInfo"
         "keyAt + 65 \<le> int (length ?key71)"
      by blast
    have "parseLengthBytes ?key71 (Some 2) = Inr 2" by (simp add: ev)
    with g(2) have skip: "skip = 2" by simp
    have "parseLengthBytes ?key71 (Some 5) = Inr 2" by (simp add: ev)
    with g(3) skip have "lenInfo = 2" by simp
    then have "keyAt = 7" using g(1) skip by simp
    with g(4) show ?thesis by simp
  qed simp
  \<comment> \<open>the certificate parser: 67 bytes leave no room for a BIT STRING with the point\<close>
  have cert67: "parsePublicKeyFromCert ?cert67 = None"
  proof (cases "parsePublicKeyFromCert ?cert67")
    case (Some pubKey)
    from parsers_reject_missing_fields [of ?cert67] Some
    obtain i where "0 \<le> i" "i + 68 \<le> int (length ?cert67)" by blast
    then show ?thesis by simp
  qed simp
  have "int (length ?b3) \<le> 3" by simp
  with parsers_reject_missing_fields [of ?b3]
  have len: "parseLength ?b3 (Some 3) = Inl ?err \<and> parseLengthBytes ?b3 (Some 3) = Inl ?err"
    by blast
  show ?thesis using sigOk rhex sig12 sig13 keyOk khex key71 certOk cert67 len by blast
qed

text \<open>
  With the length in the form 81 42, the last index that the loop visits leaves 68 bytes,
  not 69: there are 31 bytes for y.
\<close>

lemma long_form_last_index:
  "parsePublicKeyFromCert ([0x03, 0x81, 0x42, 0x00, 0x04] @ replicate 32 0x11 @ replicate 31 0x22)
   = Some \<lparr> publicKeyHex = toHex (0x04 # replicate 32 0x11 @ replicate 31 0x22),
            pk_x = toHex (replicate 32 0x11), pk_y = toHex (replicate 31 0x22) \<rparr>"
  (is "parsePublicKeyFromCert ?b = Some ?pk")
proof -
  have "0x06 \<notin> set ?b" by simp
  then have oid: "findEcOid ?b = None" by (rule findEcOid_absent)
  have e: "[0 .. int (length ?b) - 67 - 1] = [0]" by (simp add: upto_rec1)
  have h: "fallbackAt ?b 0 = Some ?pk"
    by (simp add: fallbackAt_def byteAt_def slice_def adjustOffset_def Let_def)
  have "parsePublicKeyFallback ?b = firstHit (fallbackAt ?b) [0]"
    unfolding parsePublicKeyFallback_def e by (rule refl)
  then show ?thesis using oid h by (simp add: parsePublicKeyFromCert_def)
qed

text \<open>
  Claim C8 as stated fails. This signature response declares an INTEGER s of 32 bytes and
  ends right after the length byte: the slice for s is empty, it is padded to 32 zero bytes,
  and the parser returns a signature instead of \<^verbatim>\<open>null\<close>. The length decoder returns an
  undefined length, not an error, when the byte after 0x81 is missing.
\<close>

theorem parsers_accept_truncated_counterexample:
  "parseSignatureResponse [0x7c, 0x09, 0x82, 0x07, 0x30, 0x05, 0x02, 0x01, 0x01, 0x02, 0x20]
   = Some \<lparr> signatureDer = ''30050201010220'',
            sig_r = ''0000000000000000000000000000000000000000000000000000000000000001'',
            sig_s = ''0000000000000000000000000000000000000000000000000000000000000000'' \<rparr>
   \<and> parseLength [0x02, 0x81] (Some 1) = Inr None"
  by (simp add: parseSignatureResponse_def eval_buf eval_hex eval_der)

end
